theory Spec2Isabelle
  imports Main
begin

text \<open>
  The status detector (\<open>pkg/termdash/statusdetector.go\<close>) and the transcript recorder of
  termdash, as functions on explicit states. Each method of the source is one function
  from the state before the call to the state after it, together with what the call has
  started in the background: the notifications of the listener for the detector, the
  batches handed to the flush function for the recorder. The functions that timers run
  are operations like the public ones. The mutex is not modelled: every operation holds
  it from beginning to end.
\<close>

section \<open>Time\<close>

text \<open>
  A \<open>Time\<close> is a number of nanoseconds counted from the zero value of Go's
  \<open>time.Time\<close> (January 1 of year 1, 00:00:00 UTC); a \<open>Duration\<close> is a signed 64-bit
  count of nanoseconds. \<open>time.Now()\<close> is the argument \<open>now\<close> that every operation
  takes: the body of an operation runs under the mutex and is taken to read one clock
  value. \<open>Time.Sub\<close> saturates at the ends of the \<open>Duration\<close> range, which is what
  makes \<open>time.Since\<close> of the zero time a finite value.
\<close>

type_synonym Time = int
type_synonym Duration = int

definition zeroTime :: Time where
  "zeroTime = 0"

definition unixEpoch :: Time where
  "unixEpoch = 62135596800 * 1000000000"

definition maxDuration :: Duration where
  "maxDuration = 2 ^ 63 - 1"

definition minDuration :: Duration where
  "minDuration = - (2 ^ 63)"

definition Sub :: "Time \<Rightarrow> Time \<Rightarrow> Duration" where
  "Sub t u = (let d = t - u in
     if maxDuration < d then maxDuration else if d < minDuration then minDuration else d)"

definition Since :: "Time \<Rightarrow> Time \<Rightarrow> Duration" where
  "Since now t = Sub now t"

definition UnixMilli :: "Time \<Rightarrow> int" where
  "UnixMilli t = (t - unixEpoch) div 1000000"

definition Millisecond :: Duration where
  "Millisecond = 1000000"

definition Second :: Duration where
  "Second = 1000 * Millisecond"

section \<open>Constants of statusdetector.go\<close>

definition StatusActive :: string where
  "StatusActive = ''active''"

definition StatusNeedsInput :: string where
  "StatusNeedsInput = ''needs-input''"

definition StatusIdle :: string where
  "StatusIdle = ''idle''"

definition StatusExited :: string where
  "StatusExited = ''exited''"

definition IdleTimeout :: Duration where
  "IdleTimeout = 10 * Second"

definition DebounceInterval :: Duration where
  "DebounceInterval = 500 * Millisecond"

definition MaxLineBufferSize :: nat where
  "MaxLineBufferSize = 4096"

section \<open>Text utilities\<close>

text \<open>
  A Go string is a sequence of bytes, here a \<open>char list\<close>. The patterns of the source
  are matched on bytes: every literal of a pattern is ASCII or the UTF-8 encoding of one
  rune, and UTF-8 is self-synchronising, so a match on the runes is a match on the bytes
  and conversely.
\<close>

definition NL :: char where
  "NL = CHR 0x0A"

definition CR :: char where
  "CR = CHR 0x0D"

definition ESC :: char where
  "ESC = CHR 0x1B"

definition BEL :: char where
  "BEL = CHR 0x07"

definition HasPrefix :: "string \<Rightarrow> string \<Rightarrow> bool" where
  "HasPrefix s p = (take (length p) s = p)"

fun Contains :: "string \<Rightarrow> string \<Rightarrow> bool" where
  "Contains [] sub = (sub = [])"
| "Contains (c # cs) sub = (HasPrefix (c # cs) sub \<or> Contains cs sub)"

text \<open>The class \<open>\s\<close> of Go's regexp syntax: tab, newline, form feed, carriage return, space.\<close>

definition reSpace :: "char \<Rightarrow> bool" where
  "reSpace c = (c = CHR 0x09 \<or> c = CHR 0x0A \<or> c = CHR 0x0C \<or> c = CHR 0x0D \<or> c = CHR 0x20)"

definition reDigit :: "char \<Rightarrow> bool" where
  "reDigit c = (48 \<le> (of_char c :: nat) \<and> (of_char c :: nat) \<le> 57)"

definition reLetter :: "char \<Rightarrow> bool" where
  "reLetter c = ((65 \<le> (of_char c :: nat) \<and> (of_char c :: nat) \<le> 90)
     \<or> (97 \<le> (of_char c :: nat) \<and> (of_char c :: nat) \<le> 122))"

subsection \<open>Escape sequences\<close>

text \<open>\<open>[0-9;]*[a-zA-Z]\<close> at the head of the text: what follows the match, if there is one.\<close>

fun csiTail :: "string \<Rightarrow> string option" where
  "csiTail [] = None"
| "csiTail (c # cs) =
     (if reDigit c \<or> c = CHR '';'' then csiTail cs
      else if reLetter c then Some cs
      else None)"

text \<open>\<open>[^\x07]*\x07\<close> at the head of the text.\<close>

fun oscTail :: "string \<Rightarrow> string option" where
  "oscTail [] = None"
| "oscTail (c # cs) = (if c = BEL then Some cs else oscTail cs)"

text \<open>
  \<open>ansiRegex\<close> at the head of the text. Its third alternative \<open>\x1b\[[0-9;]*m\<close> matches
  only where the first one does, with the same extent, and the first one is preferred.
\<close>

definition ansiRegexMatch :: "string \<Rightarrow> string option" where
  "ansiRegexMatch s =
     (case s of
        e # b # r \<Rightarrow>
          (if e = ESC \<and> b = CHR ''['' then csiTail r
           else if e = ESC \<and> b = CHR '']'' then oscTail r
           else None)
      | _ \<Rightarrow> None)"

lemma csiTail_shorter: "csiTail s = Some r \<Longrightarrow> length r < length s"
  by (induction s) (auto split: if_splits)

lemma oscTail_shorter: "oscTail s = Some r \<Longrightarrow> length r < length s"
  by (induction s) (auto split: if_splits)

lemma ansiRegexMatch_shorter: "ansiRegexMatch s = Some r \<Longrightarrow> length r < length s"
  by (auto simp: ansiRegexMatch_def split: list.splits if_splits
      dest: csiTail_shorter oscTail_shorter)

text \<open>\<open>ansiRegex.ReplaceAllString(text, "")\<close>: the matches are found from left to right and do not overlap.\<close>

function stripAnsi :: "string \<Rightarrow> string" where
  "stripAnsi [] = []"
| "stripAnsi (c # cs) =
     (case ansiRegexMatch (c # cs) of
        Some r \<Rightarrow> stripAnsi r
      | None \<Rightarrow> c # stripAnsi cs)"
  by pat_completeness auto
termination
  by (relation "measure length") (auto dest: ansiRegexMatch_shorter)

subsection \<open>Last lines\<close>

fun Split_NL :: "string \<Rightarrow> string list" where
  "Split_NL [] = [[]]"
| "Split_NL (c # cs) =
     (if c = NL then [] # Split_NL cs
      else (case Split_NL cs of l # ls \<Rightarrow> (c # l) # ls | [] \<Rightarrow> [[c]]))"

fun Join_NL :: "string list \<Rightarrow> string" where
  "Join_NL [] = []"
| "Join_NL [l] = l"
| "Join_NL (l # ls) = l @ NL # Join_NL ls"

definition getLastLines :: "string \<Rightarrow> nat \<Rightarrow> string" where
  "getLastLines text n =
     (let lines = Split_NL text in
      if length lines \<le> n then text
      else Join_NL (drop (length lines - n) lines))"

subsection \<open>Prompt patterns\<close>

text \<open>\<open>lit\s*$\<close> somewhere in the text: an occurrence of \<open>lit\<close> followed by white space only.\<close>

fun promptAtEnd :: "string \<Rightarrow> string \<Rightarrow> bool" where
  "promptAtEnd lit [] = (lit = [])"
| "promptAtEnd lit (c # cs) =
     ((HasPrefix (c # cs) lit \<and> list_all reSpace (drop (length lit) (c # cs)))
      \<or> promptAtEnd lit cs)"

text \<open>What follows the question mark in \<open>\?\s*\(?(yes|no|y\/n)\)?\<close>.\<close>

definition yesNoTail :: "string \<Rightarrow> bool" where
  "yesNoTail s =
     (let r = dropWhile reSpace s;
          r' = (case r of c # cs \<Rightarrow> if c = CHR ''('' then cs else r | [] \<Rightarrow> r)
      in HasPrefix r' ''yes'' \<or> HasPrefix r' ''no'' \<or> HasPrefix r' ''y/n'')"

fun yesNoPrompt :: "string \<Rightarrow> bool" where
  "yesNoPrompt [] = False"
| "yesNoPrompt (c # cs) = ((c = CHR ''?'' \<and> yesNoTail cs) \<or> yesNoPrompt cs)"

text \<open>\<open>\(Y\)es.*\(N\)o\<close>: the dot does not match a newline.\<close>

fun yesNoLetters :: "string \<Rightarrow> bool" where
  "yesNoLetters [] = False"
| "yesNoLetters (c # cs) =
     ((HasPrefix (c # cs) ''(Y)es''
         \<and> Contains (takeWhile (\<lambda>x. x \<noteq> NL) (drop 5 (c # cs))) ''(N)o'')
      \<or> yesNoLetters cs)"

definition matchesPrompt :: "string \<Rightarrow> bool" where
  "matchesPrompt text =
     (promptAtEnd [CHR 0xE2, CHR 0x9D, CHR 0xAF] text
      \<or> promptAtEnd ''>'' text
      \<or> promptAtEnd ''$'' text
      \<or> yesNoPrompt text
      \<or> Contains text ''Do you want to proceed''
      \<or> yesNoLetters text
      \<or> Contains text ''Press Enter to continue''
      \<or> Contains text ''[Y/n]''
      \<or> Contains text ''waiting for input''
      \<or> Contains text ''waiting for response'')"

section \<open>The status detector\<close>

text \<open>
  A timer made by \<open>time.AfterFunc\<close>: when it is due, and whether it is still to fire.
  \<open>Stop\<close> on a timer that has fired does not keep its function from running, so the
  function of the idle timer is an operation of its own (\<open>idleTimerFired\<close>), which checks
  the \<open>stopped\<close> flag itself as the source does.
\<close>

datatype Timer = Timer (fireAt: Time) (active: bool)

definition AfterFunc :: "Time \<Rightarrow> Duration \<Rightarrow> Timer" where
  "AfterFunc now d = Timer (now + d) True"

definition timerStop :: "Timer \<Rightarrow> Timer" where
  "timerStop tm = Timer (fireAt tm) False"

text \<open>
  The fields of the struct but the mutex. \<open>callback\<close> may be nil (\<open>None\<close>); what the
  listener does is outside the program, so an operation returns, with the new state, the
  calls \<open>go sd.callback(oldStatus, newStatus)\<close> it has started.
\<close>

record 'cb StatusDetector =
  lineBuffer :: string
  currentStatus :: string
  lastOutputAt :: Time
  lastChangeAt :: Time
  idleTimer :: "Timer option"
  callback :: "'cb option"
  stopped :: bool

type_synonym notification = "string \<times> string"

definition setStatus ::
  "Time \<Rightarrow> string \<Rightarrow> 'cb StatusDetector \<Rightarrow> 'cb StatusDetector \<times> notification list" where
  "setStatus now newStatus sd =
     (if newStatus = currentStatus sd then (sd, [])
      else if Since now (lastChangeAt sd) < DebounceInterval then (sd, [])
      else
        (let oldStatus = currentStatus sd;
             sd' = sd\<lparr>currentStatus := newStatus, lastChangeAt := now\<rparr>
         in if callback sd' \<noteq> None then (sd', [(oldStatus, newStatus)]) else (sd', [])))"

definition idleTimerFired ::
  "Time \<Rightarrow> 'cb StatusDetector \<Rightarrow> 'cb StatusDetector \<times> notification list" where
  "idleTimerFired now sd =
     (if stopped sd then (sd, [])
      else if currentStatus sd = StatusActive \<and> IdleTimeout \<le> Since now (lastOutputAt sd)
        then setStatus now StatusIdle sd
      else (sd, []))"

definition startIdleTimer :: "Time \<Rightarrow> 'cb StatusDetector \<Rightarrow> 'cb StatusDetector" where
  "startIdleTimer now sd = sd\<lparr>idleTimer := Some (AfterFunc now IdleTimeout)\<rparr>"

definition NewStatusDetector :: "Time \<Rightarrow> 'cb option \<Rightarrow> 'cb StatusDetector" where
  "NewStatusDetector now cb =
     startIdleTimer now
       \<lparr>lineBuffer = [], currentStatus = StatusActive, lastOutputAt = now,
        lastChangeAt = zeroTime, idleTimer = None, callback = cb, stopped = False\<rparr>"

definition resetIdleTimer :: "Time \<Rightarrow> 'cb StatusDetector \<Rightarrow> 'cb StatusDetector" where
  "resetIdleTimer now sd =
     (let sd1 = (case idleTimer sd of
                   Some tm \<Rightarrow> sd\<lparr>idleTimer := Some (timerStop tm)\<rparr>
                 | None \<Rightarrow> sd)
      in if \<not> stopped sd1 then sd1\<lparr>idleTimer := Some (AfterFunc now IdleTimeout)\<rparr> else sd1)"

definition ProcessOutput ::
  "Time \<Rightarrow> string \<Rightarrow> 'cb StatusDetector \<Rightarrow> 'cb StatusDetector \<times> notification list" where
  "ProcessOutput now data sd =
     (if stopped sd then (sd, [])
      else
        (let sd1 = resetIdleTimer now (sd\<lparr>lastOutputAt := now\<rparr>);
             lb = lineBuffer sd1 @ data;
             sd2 = sd1\<lparr>lineBuffer :=
                     (if MaxLineBufferSize < length lb
                      then drop (length lb - MaxLineBufferSize) lb else lb)\<rparr>;
             lastLines = getLastLines (lineBuffer sd2) 3;
             stripped = stripAnsi lastLines
         in if matchesPrompt stripped then setStatus now StatusNeedsInput sd2
            else setStatus now StatusActive sd2))"

definition SetExited ::
  "Time \<Rightarrow> 'cb StatusDetector \<Rightarrow> 'cb StatusDetector \<times> notification list" where
  "SetExited now sd = setStatus now StatusExited sd"

definition Stop_sd :: "'cb StatusDetector \<Rightarrow> 'cb StatusDetector" where
  "Stop_sd sd =
     (let sd1 = sd\<lparr>stopped := True\<rparr>
      in case idleTimer sd1 of
           Some tm \<Rightarrow> sd1\<lparr>idleTimer := Some (timerStop tm)\<rparr>
         | None \<Rightarrow> sd1)"

definition GetStatus :: "'cb StatusDetector \<Rightarrow> string" where
  "GetStatus sd = currentStatus sd"

text \<open>
  What can happen to a detector: the three public calls and the function of an idle
  timer.
\<close>

datatype event = Output string | Exit | StopCall | IdleTimerFired

fun step ::
  "Time \<Rightarrow> event \<Rightarrow> 'cb StatusDetector \<Rightarrow> 'cb StatusDetector \<times> notification list" where
  "step now (Output data) sd = ProcessOutput now data sd"
| "step now Exit sd = SetExited now sd"
| "step now StopCall sd = (Stop_sd sd, [])"
| "step now IdleTimerFired sd = idleTimerFired now sd"

text \<open>
  A history of a detector: the events since its creation, each with the clock reading of
  its call, the oldest first. \<open>runEvents\<close> is the detector after them.
  \<open>clockOrder t evs\<close>: the clock, which read \<open>t\<close> before, does not go back along \<open>evs\<close>;
  \<open>lastTime\<close> is its last reading. \<open>lastOutputTime t0 evs\<close> is when output was last
  observed: the reading of the last \<open>Output\<close> event of \<open>evs\<close>, and \<open>t0\<close> when there is none
  (the creation counts as the first observation, as \<open>NewStatusDetector\<close> has it).
\<close>

fun runEvents :: "(Time \<times> event) list \<Rightarrow> 'cb StatusDetector \<Rightarrow> 'cb StatusDetector" where
  "runEvents [] sd = sd"
| "runEvents ((t, ev) # rest) sd = runEvents rest (fst (step t ev sd))"

fun clockOrder :: "Time \<Rightarrow> (Time \<times> event) list \<Rightarrow> bool" where
  "clockOrder t [] = True"
| "clockOrder t ((t', ev) # rest) = (t \<le> t' \<and> clockOrder t' rest)"

fun lastTime :: "Time \<Rightarrow> (Time \<times> event) list \<Rightarrow> Time" where
  "lastTime t [] = t"
| "lastTime t ((t', ev) # rest) = lastTime t' rest"

fun lastOutputTime :: "Time \<Rightarrow> (Time \<times> event) list \<Rightarrow> Time" where
  "lastOutputTime t0 [] = t0"
| "lastOutputTime t0 ((t, Output data) # rest) = lastOutputTime t rest"
| "lastOutputTime t0 ((t, ev) # rest) = lastOutputTime t0 rest"

text \<open>
  What holds of a detector at the clock reading \<open>t\<close> after any history: no output is later
  than the clock, and an active detector has had no change of status after its last output.
\<close>

definition consistent :: "Time \<Rightarrow> 'cb StatusDetector \<Rightarrow> bool" where
  "consistent t sd =
     (lastOutputAt sd \<le> t
      \<and> (currentStatus sd = StatusActive \<longrightarrow> lastChangeAt sd \<le> lastOutputAt sd))"

text \<open>
  Moreover, as long as the detector is not stopped, \<open>lastOutputAt\<close> is the time \<open>L\<close> when
  output was last observed, and the idle timer is armed for \<open>IdleTimeout\<close> after it.
\<close>

definition tracked :: "Time \<Rightarrow> Time \<Rightarrow> 'cb StatusDetector \<Rightarrow> bool" where
  "tracked t L sd =
     (consistent t sd
      \<and> (\<not> stopped sd \<longrightarrow>
           lastOutputAt sd = L \<and> idleTimer sd = Some (Timer (L + IdleTimeout) True)))"

section \<open>The transcript recorder\<close>

definition TranscriptFlushThreshold :: nat where
  "TranscriptFlushThreshold = 1024"

definition TranscriptFlushInterval :: Duration where
  "TranscriptFlushInterval = 5 * Second"

record TranscriptEntry =
  Timestamp :: int
  Type :: string
  Text :: string

text \<open>
  The fields of the struct but the mutex; the two counters are Go \<open>int\<close>s that never go
  below zero. \<open>flushFn\<close> may be nil. An operation returns, with the new state, the
  batches it has handed to \<open>go tr.flushFn(lines)\<close>.
\<close>

record 'f TranscriptRecorder =
  buffer :: "TranscriptEntry list"
  bufferBytes :: nat
  flushFn :: "'f option"
  flushTimer :: "Timer option"
  stopped :: bool
  lastOutput :: string
  dupCount :: nat

subsection \<open>Cleaning\<close>

text \<open>
  \<open>transcriptAnsiRegex\<close> at the head of the text: the alternatives of \<open>ansiRegex\<close>, then
  \<open>\x1b\[\?[0-9;]*[a-zA-Z]\<close>, tried when the others have failed.
\<close>

definition transcriptAnsiRegexMatch :: "string \<Rightarrow> string option" where
  "transcriptAnsiRegexMatch s =
     (case s of
        e # b # r \<Rightarrow>
          (if e = ESC \<and> b = CHR ''['' then
             (case csiTail r of
                Some t \<Rightarrow> Some t
              | None \<Rightarrow> (case r of q # r' \<Rightarrow> if q = CHR ''?'' then csiTail r' else None
                         | [] \<Rightarrow> None))
           else if e = ESC \<and> b = CHR '']'' then oscTail r
           else None)
      | _ \<Rightarrow> None)"

lemma transcriptAnsiRegexMatch_shorter:
  "transcriptAnsiRegexMatch s = Some r \<Longrightarrow> length r < length s"
  by (auto simp: transcriptAnsiRegexMatch_def split: list.splits if_splits option.splits
      dest: csiTail_shorter oscTail_shorter)

function stripTranscriptAnsi :: "string \<Rightarrow> string" where
  "stripTranscriptAnsi [] = []"
| "stripTranscriptAnsi (c # cs) =
     (case transcriptAnsiRegexMatch (c # cs) of
        Some r \<Rightarrow> stripTranscriptAnsi r
      | None \<Rightarrow> c # stripTranscriptAnsi cs)"
  by pat_completeness auto
termination
  by (relation "measure length") (auto dest: transcriptAnsiRegexMatch_shorter)

text \<open>
  \<open>strings.ReplaceAll(s, old, new)\<close> for a non-empty \<open>old\<close>, as both calls of the source
  have it: the occurrences are taken from left to right and do not overlap. (With an
  empty \<open>old\<close> Go inserts \<open>new\<close> around every rune; that case is not modelled, the
  text is returned as it is.)
\<close>

fun ReplaceAll :: "string \<Rightarrow> string \<Rightarrow> string \<Rightarrow> string" where
  "ReplaceAll [] old new = []"
| "ReplaceAll (c # cs) old new =
     (if old \<noteq> [] \<and> HasPrefix (c # cs) old
      then new @ ReplaceAll (drop (length old - 1) cs) old new
      else c # ReplaceAll cs old new)"

lemma HasPrefix_length: "HasPrefix s p \<Longrightarrow> length p \<le> length s"
proof -
  assume "HasPrefix s p"
  then have "length (take (length p) s) = length p"
    by (simp add: HasPrefix_def)
  then show ?thesis by simp
qed

lemma ReplaceAll_length:
  "length new \<le> length old \<Longrightarrow> length (ReplaceAll s old new) \<le> length s"
proof (induction s old new rule: ReplaceAll.induct)
  case (1 old new)
  then show ?case by simp
next
  case (2 c cs old new)
  show ?case
  proof (cases "old \<noteq> [] \<and> HasPrefix (c # cs) old")
    case True
    then have len: "length old \<le> Suc (length cs)" and ne: "0 < length old"
      using HasPrefix_length [of "c # cs" old] by auto
    have "length (ReplaceAll (drop (length old - 1) cs) old new)
            \<le> length (drop (length old - 1) cs)"
      using 2 True by simp
    then show ?thesis using True len ne "2.prems" by simp
  next
    case False
    then show ?thesis using 2 by auto
  qed
qed

lemma ReplaceAll_shorter:
  "Contains s old \<Longrightarrow> old \<noteq> [] \<Longrightarrow> length new < length old
   \<Longrightarrow> length (ReplaceAll s old new) < length s"
proof (induction s old new rule: ReplaceAll.induct)
  case (1 old new)
  then show ?case by simp
next
  case (2 c cs old new)
  show ?case
  proof (cases "HasPrefix (c # cs) old")
    case True
    then have len: "length old \<le> Suc (length cs)"
      using HasPrefix_length [of "c # cs" old] by simp
    have "length (ReplaceAll (drop (length old - 1) cs) old new)
            \<le> length (drop (length old - 1) cs)"
      using "2.prems" by (intro ReplaceAll_length) simp
    then show ?thesis using True len "2.prems" by simp
  next
    case False
    then show ?thesis using 2 by simp
  qed
qed

text \<open>The loop of \<open>cleanForTranscript\<close> that collapses blank lines.\<close>

function collapseBlankLines :: "string \<Rightarrow> string" where
  "collapseBlankLines s =
     (if Contains s [NL, NL, NL] then collapseBlankLines (ReplaceAll s [NL, NL, NL] [NL, NL])
      else s)"
  by pat_completeness auto
termination
  by (relation "measure length") (auto intro: ReplaceAll_shorter)

declare collapseBlankLines.simps [simp del]

text \<open>
  \<open>strings.TrimSpace\<close> removes the leading and the trailing white space "as defined by
  Unicode": the runes of \<open>unicode.IsSpace\<close>, here by their UTF-8 encodings. A text begins
  (ends) with such a rune exactly when it begins (ends) with the bytes of its encoding.
\<close>

definition unicodeSpaces :: "string list" where
  "unicodeSpaces =
     [[CHR 0x09], [CHR 0x0A], [CHR 0x0B], [CHR 0x0C], [CHR 0x0D], [CHR 0x20],
      [CHR 0xC2, CHR 0x85], [CHR 0xC2, CHR 0xA0],
      [CHR 0xE1, CHR 0x9A, CHR 0x80],
      [CHR 0xE2, CHR 0x80, CHR 0x80], [CHR 0xE2, CHR 0x80, CHR 0x81],
      [CHR 0xE2, CHR 0x80, CHR 0x82], [CHR 0xE2, CHR 0x80, CHR 0x83],
      [CHR 0xE2, CHR 0x80, CHR 0x84], [CHR 0xE2, CHR 0x80, CHR 0x85],
      [CHR 0xE2, CHR 0x80, CHR 0x86], [CHR 0xE2, CHR 0x80, CHR 0x87],
      [CHR 0xE2, CHR 0x80, CHR 0x88], [CHR 0xE2, CHR 0x80, CHR 0x89],
      [CHR 0xE2, CHR 0x80, CHR 0x8A],
      [CHR 0xE2, CHR 0x80, CHR 0xA8], [CHR 0xE2, CHR 0x80, CHR 0xA9],
      [CHR 0xE2, CHR 0x80, CHR 0xAF],
      [CHR 0xE2, CHR 0x81, CHR 0x9F],
      [CHR 0xE3, CHR 0x80, CHR 0x80]]"

function trimPrefixes :: "string list \<Rightarrow> string \<Rightarrow> string" where
  "trimPrefixes ws s =
     (case find (\<lambda>w. w \<noteq> [] \<and> HasPrefix s w) ws of
        Some w \<Rightarrow> trimPrefixes ws (drop (length w) s)
      | None \<Rightarrow> s)"
  by pat_completeness auto
termination
proof (relation "measure (\<lambda>(ws, s). length s)")
  show "wf (measure (\<lambda>(ws, s). length s))" by simp
next
  fix ws :: "string list" and s w :: string
  assume "find (\<lambda>w. w \<noteq> [] \<and> HasPrefix s w) ws = Some w"
  then have "w \<noteq> []" and "HasPrefix s w"
    by (auto simp: find_Some_iff)
  then have "s \<noteq> []" by (auto simp: HasPrefix_def)
  with \<open>w \<noteq> []\<close> show "((ws, drop (length w) s), (ws, s)) \<in> measure (\<lambda>(ws, s). length s)"
    by simp
qed

declare trimPrefixes.simps [simp del]

definition TrimSpace :: "string \<Rightarrow> string" where
  "TrimSpace s = rev (trimPrefixes (map rev unicodeSpaces) (rev (trimPrefixes unicodeSpaces s)))"

definition cleanForTranscript :: "string \<Rightarrow> string" where
  "cleanForTranscript text =
     (let cleaned = stripTranscriptAnsi text;
          cleaned = ReplaceAll cleaned [CR] [];
          cleaned = collapseBlankLines cleaned
      in TrimSpace cleaned)"

subsection \<open>Cleaning, as the specification words it\<close>

text \<open>
  "Collapse runs of 3+ consecutive newlines down to 2": a maximal run of newlines is
  replaced by two newlines when it has three or more, and kept otherwise; everything else
  is kept. (\<open>collapseBlankLines\<close> above is the loop of the source; the two are compared
  below.)
\<close>

function collapseNewlineRuns :: "string \<Rightarrow> string" where
  "collapseNewlineRuns [] = []"
| "collapseNewlineRuns (c # cs) =
     (if c = NL
      then (let run = takeWhile (\<lambda>x. x = NL) (c # cs)
            in (if 3 \<le> length run then [NL, NL] else run)
               @ collapseNewlineRuns (dropWhile (\<lambda>x. x = NL) cs))
      else c # collapseNewlineRuns cs)"
  by pat_completeness auto
termination
  by (relation "measure length") (auto simp: less_Suc_eq_le length_dropWhile_le)



definition HasSuffix :: "string \<Rightarrow> string \<Rightarrow> bool" where
  "HasSuffix s p = (length p \<le> length s \<and> drop (length s - length p) s = p)"



text \<open>
  "Trim surrounding white space": \<open>madeOf ws a\<close> says that the text \<open>a\<close> is made of
  elements of \<open>ws\<close>, one after the other; with \<open>unicodeSpaces\<close> for \<open>ws\<close>, that it is white
  space only.
\<close>

inductive madeOf :: "string list \<Rightarrow> string \<Rightarrow> bool" for ws where
  none: "madeOf ws []"
| more: "w \<in> set ws \<Longrightarrow> madeOf ws s \<Longrightarrow> madeOf ws (w @ s)"

subsection \<open>Animation frames\<close>

text \<open>The braille glyphs of the spinner pattern, each three bytes of UTF-8.\<close>

definition spinnerGlyphs :: "string list" where
  "spinnerGlyphs =
     [[CHR 0xE2, CHR 0xA0, CHR 0x8B], [CHR 0xE2, CHR 0xA0, CHR 0x99],
      [CHR 0xE2, CHR 0xA0, CHR 0xB9], [CHR 0xE2, CHR 0xA0, CHR 0xB8],
      [CHR 0xE2, CHR 0xA0, CHR 0xBC], [CHR 0xE2, CHR 0xA0, CHR 0xB4],
      [CHR 0xE2, CHR 0xA0, CHR 0xA6], [CHR 0xE2, CHR 0xA0, CHR 0xA7],
      [CHR 0xE2, CHR 0xA0, CHR 0x87], [CHR 0xE2, CHR 0xA0, CHR 0x8F],
      [CHR 0xE2, CHR 0xA3, CHR 0xBE], [CHR 0xE2, CHR 0xA3, CHR 0xBD],
      [CHR 0xE2, CHR 0xA3, CHR 0xBB], [CHR 0xE2, CHR 0xA2, CHR 0xBF],
      [CHR 0xE2, CHR 0xA1, CHR 0xBF], [CHR 0xE2, CHR 0xA3, CHR 0x9F],
      [CHR 0xE2, CHR 0xA3, CHR 0xAF], [CHR 0xE2, CHR 0xA3, CHR 0xB7]]"

text \<open>The rest of the text is made of runes of the class of the spinner pattern.\<close>

fun spinnerRun :: "string \<Rightarrow> bool" where
  "spinnerRun [] = True"
| "spinnerRun (c # cs) =
     (if reSpace c \<or> c = CHR ''|'' \<or> c = CHR ''/'' \<or> c = CHR ''-'' \<or> c = CHR 0x5C
      then spinnerRun cs
      else (case cs of
              b # d # r \<Rightarrow> [c, b, d] \<in> set spinnerGlyphs \<and> spinnerRun r
            | _ \<Rightarrow> False))"

text \<open>\<open>^\s*\d+%\<close>.\<close>

definition progressPercent :: "string \<Rightarrow> bool" where
  "progressPercent text =
     (let r = dropWhile reSpace text
      in takeWhile reDigit r \<noteq> [] \<and> HasPrefix (dropWhile reDigit r) ''%'')"

definition isAnimationFrame :: "string \<Rightarrow> bool" where
  "isAnimationFrame text = ((text \<noteq> [] \<and> spinnerRun text) \<or> progressPercent text)"

subsection \<open>Operations\<close>

text \<open>
  \<open>json.Marshal\<close> is the parameter \<open>marshal\<close> of the operations that flush, \<open>None\<close>
  where it returns an error: what is proved holds whatever the encoding is.
\<close>

type_synonym marshal = "TranscriptEntry \<Rightarrow> string option"

definition Repeat :: "string \<Rightarrow> nat \<Rightarrow> string" where
  "Repeat s n = concat (replicate n s)"

text \<open>The loop of \<open>flush\<close>: one line for each entry that \<open>marshal\<close> encodes, in the order of the buffer.\<close>

definition jsonLines :: "marshal \<Rightarrow> TranscriptEntry list \<Rightarrow> string" where
  "jsonLines marshal entries =
     foldl (\<lambda>lines entry.
              case marshal entry of
                None \<Rightarrow> lines
              | Some jsonLine \<Rightarrow> lines @ jsonLine @ [NL]) [] entries"

definition flush ::
  "marshal \<Rightarrow> 'f TranscriptRecorder \<Rightarrow> 'f TranscriptRecorder \<times> string list" where
  "flush marshal tr =
     (if length (buffer tr) = 0 then (tr, [])
      else
        (let lines = jsonLines marshal (buffer tr);
             tr' = tr\<lparr>buffer := [], bufferBytes := 0\<rparr>
         in if 0 < length lines \<and> flushFn tr' \<noteq> None then (tr', [lines]) else (tr', [])))"

definition startFlushTimer :: "Time \<Rightarrow> 'f TranscriptRecorder \<Rightarrow> 'f TranscriptRecorder" where
  "startFlushTimer now tr = tr\<lparr>flushTimer := Some (AfterFunc now TranscriptFlushInterval)\<rparr>"

definition NewTranscriptRecorder :: "Time \<Rightarrow> 'f option \<Rightarrow> 'f TranscriptRecorder" where
  "NewTranscriptRecorder now fn =
     startFlushTimer now
       \<lparr>buffer = [], bufferBytes = 0, flushFn = fn, flushTimer = None, stopped = False,
        lastOutput = [], dupCount = 0\<rparr>"

definition flushTimerFired ::
  "marshal \<Rightarrow> Time \<Rightarrow> 'f TranscriptRecorder \<Rightarrow> 'f TranscriptRecorder \<times> string list" where
  "flushTimerFired marshal now tr =
     (if stopped tr then (tr, [])
      else (let (tr1, out) = flush marshal tr in (startFlushTimer now tr1, out)))"

definition RecordOutput ::
  "marshal \<Rightarrow> Time \<Rightarrow> string \<Rightarrow> 'f TranscriptRecorder
    \<Rightarrow> 'f TranscriptRecorder \<times> string list" where
  "RecordOutput marshal now data tr =
     (if stopped tr then (tr, [])
      else
        (let cleaned = cleanForTranscript data in
         if cleaned = [] then (tr, [])
         else if isAnimationFrame cleaned \<and> cleaned = lastOutput tr
           then (tr\<lparr>dupCount := dupCount tr + 1\<rparr>, [])
         else
           (let tr1 = (if 0 < dupCount tr
                       then tr\<lparr>buffer := buffer tr @
                                 [\<lparr>Timestamp = UnixMilli now, Type = ''output'',
                                   Text = ''[repeated '' @ Repeat ''.'' (dupCount tr) @ '']''\<rparr>],
                               dupCount := 0\<rparr>
                       else tr);
                tr2 = tr1\<lparr>lastOutput := cleaned\<rparr>;
                entry = \<lparr>Timestamp = UnixMilli now, Type = ''output'', Text = cleaned\<rparr>;
                tr3 = tr2\<lparr>buffer := buffer tr2 @ [entry],
                          bufferBytes := bufferBytes tr2 + length cleaned\<rparr>
            in if TranscriptFlushThreshold \<le> bufferBytes tr3 then flush marshal tr3
               else (tr3, []))))"

definition RecordInput ::
  "marshal \<Rightarrow> Time \<Rightarrow> string \<Rightarrow> 'f TranscriptRecorder
    \<Rightarrow> 'f TranscriptRecorder \<times> string list" where
  "RecordInput marshal now data tr =
     (if stopped tr then (tr, [])
      else
        (let text = data in
         if length text = 1 \<and> (of_char (text ! 0) :: nat) < 32
              \<and> text ! 0 \<noteq> NL \<and> text ! 0 \<noteq> CR
         then (tr, [])
         else
           (let entry = \<lparr>Timestamp = UnixMilli now, Type = ''input'', Text = text\<rparr>;
                tr1 = tr\<lparr>buffer := buffer tr @ [entry],
                         bufferBytes := bufferBytes tr + length text\<rparr>
            in if TranscriptFlushThreshold \<le> bufferBytes tr1 then flush marshal tr1
               else (tr1, []))))"

definition Stop_tr ::
  "marshal \<Rightarrow> 'f TranscriptRecorder \<Rightarrow> 'f TranscriptRecorder \<times> string list" where
  "Stop_tr marshal tr =
     (let tr1 = tr\<lparr>stopped := True\<rparr>;
          tr2 = (case flushTimer tr1 of
                   Some tm \<Rightarrow> tr1\<lparr>flushTimer := Some (timerStop tm)\<rparr>
                 | None \<Rightarrow> tr1)
      in flush marshal tr2)"

text \<open>Successive calls of \<open>RecordOutput\<close>, each with its clock reading, and all they hand to \<open>flushFn\<close>.\<close>

fun recordOutputs ::
  "marshal \<Rightarrow> (Time \<times> string) list \<Rightarrow> 'f TranscriptRecorder
    \<Rightarrow> 'f TranscriptRecorder \<times> string list" where
  "recordOutputs marshal [] tr = (tr, [])"
| "recordOutputs marshal ((now, data) # rest) tr =
     (let (tr1, out1) = RecordOutput marshal now data tr;
          (tr2, out2) = recordOutputs marshal rest tr1
      in (tr2, out1 @ out2))"

section \<open>Properties of the status detector\<close>

lemma Sub_ge_iff: "d \<le> maxDuration \<Longrightarrow> minDuration < d \<Longrightarrow> (d \<le> Sub t u) = (d \<le> t - u)"
  by (auto simp: Sub_def Let_def)

lemma Debounce_le_Sub: "(DebounceInterval \<le> Sub t u) = (DebounceInterval \<le> t - u)"
  by (rule Sub_ge_iff) (simp_all add: DebounceInterval_def Millisecond_def maxDuration_def minDuration_def)

lemma IdleTimeout_le_Sub: "(IdleTimeout \<le> Sub t u) = (IdleTimeout \<le> t - u)"
  by (rule Sub_ge_iff) (simp_all add: IdleTimeout_def Second_def Millisecond_def maxDuration_def minDuration_def)

lemma status_distinct:
  "StatusIdle \<noteq> StatusActive" "StatusExited \<noteq> StatusActive" "StatusNeedsInput \<noteq> StatusActive"
  "StatusIdle \<noteq> StatusExited" "StatusIdle \<noteq> StatusNeedsInput" "StatusExited \<noteq> StatusNeedsInput"
  by (simp_all add: StatusIdle_def StatusActive_def StatusExited_def StatusNeedsInput_def)

text \<open>
  Claim C1. For a detector that has a listener and every candidate status: the setter
  updates the status (and the time of the last accepted change) and starts exactly one
  notification, of the pair (previous, new), if and only if the candidate differs from the
  current status and at least \<open>DebounceInterval\<close> (500 ms) has passed since the last
  accepted change; otherwise it leaves the detector as it is and notifies nothing, and
  nothing is kept for later. So a second candidate that comes less than 500 ms after an
  accepted one is discarded, whatever it is.
\<close>

theorem setStatus_debounced:
  assumes "callback sd \<noteq> None"
  shows "(newStatus \<noteq> currentStatus sd \<and> DebounceInterval \<le> Since now (lastChangeAt sd)
           \<longrightarrow> setStatus now newStatus sd
                 = (sd\<lparr>currentStatus := newStatus, lastChangeAt := now\<rparr>,
                    [(currentStatus sd, newStatus)]))
       \<and> (\<not> (newStatus \<noteq> currentStatus sd \<and> DebounceInterval \<le> Since now (lastChangeAt sd))
           \<longrightarrow> setStatus now newStatus sd = (sd, []))
       \<and> (newStatus \<noteq> currentStatus sd \<and> DebounceInterval \<le> Since now (lastChangeAt sd)
            \<and> Since later now < DebounceInterval
           \<longrightarrow> setStatus later second (fst (setStatus now newStatus sd))
                 = (fst (setStatus now newStatus sd), []))"
  using assms by (auto simp: setStatus_def Let_def)

theorem setStatus_debounced_witness:
  "callback (NewStatusDetector unixEpoch (Some (0::nat))) \<noteq> None
   \<and> setStatus (unixEpoch + Second) StatusNeedsInput (NewStatusDetector unixEpoch (Some (0::nat)))
       = ((NewStatusDetector unixEpoch (Some (0::nat)))
            \<lparr>currentStatus := StatusNeedsInput, lastChangeAt := unixEpoch + Second\<rparr>,
          [(StatusActive, StatusNeedsInput)])
   \<and> setStatus (unixEpoch + Second + 100 * Millisecond) StatusExited
        (fst (setStatus (unixEpoch + Second) StatusNeedsInput (NewStatusDetector unixEpoch (Some (0::nat)))))
       = (fst (setStatus (unixEpoch + Second) StatusNeedsInput (NewStatusDetector unixEpoch (Some (0::nat)))), [])
   \<and> setStatus (unixEpoch + Second) StatusActive (NewStatusDetector unixEpoch (Some (0::nat)))
       = (NewStatusDetector unixEpoch (Some (0::nat)), [])"
proof -
  let ?sd = "NewStatusDetector unixEpoch (Some (0::nat))"
  have cb: "callback ?sd \<noteq> None"
    by (simp add: NewStatusDetector_def startIdleTimer_def)
  have cur: "currentStatus ?sd = StatusActive" and lc: "lastChangeAt ?sd = zeroTime"
    by (simp_all add: NewStatusDetector_def startIdleTimer_def)
  have ne: "StatusNeedsInput \<noteq> currentStatus ?sd"
    by (simp add: cur StatusNeedsInput_def StatusActive_def)
  have deb: "DebounceInterval \<le> Since (unixEpoch + Second) (lastChangeAt ?sd)"
    unfolding lc
    by (simp add: Since_def Sub_def zeroTime_def unixEpoch_def Second_def Millisecond_def
        DebounceInterval_def maxDuration_def minDuration_def)
  have soon: "Since (unixEpoch + Second + 100 * Millisecond) (unixEpoch + Second) < DebounceInterval"
    by (simp add: Since_def Sub_def zeroTime_def unixEpoch_def Second_def Millisecond_def
        DebounceInterval_def maxDuration_def minDuration_def)
  note th = setStatus_debounced [OF cb]
  have a: "setStatus (unixEpoch + Second) StatusNeedsInput ?sd
       = (?sd\<lparr>currentStatus := StatusNeedsInput, lastChangeAt := unixEpoch + Second\<rparr>,
          [(StatusActive, StatusNeedsInput)])"
    using th [of StatusNeedsInput "unixEpoch + Second"] ne deb cur by simp
  have b: "setStatus (unixEpoch + Second + 100 * Millisecond) StatusExited
        (fst (setStatus (unixEpoch + Second) StatusNeedsInput ?sd))
       = (fst (setStatus (unixEpoch + Second) StatusNeedsInput ?sd), [])"
    using th [of StatusNeedsInput "unixEpoch + Second" "unixEpoch + Second + 100 * Millisecond" StatusExited]
      ne deb soon by blast
  have c: "setStatus (unixEpoch + Second) StatusActive ?sd = (?sd, [])"
    using th [of StatusActive "unixEpoch + Second"] cur by simp
  show ?thesis using cb a b c by blast
qed

lemma Sub_mono: "u' \<le> u \<Longrightarrow> Sub t u \<le> Sub t u'"
  by (auto simp: Sub_def Let_def maxDuration_def minDuration_def)

lemma Debounce_le_IdleTimeout: "DebounceInterval \<le> IdleTimeout"
  by (simp add: DebounceInterval_def IdleTimeout_def Second_def Millisecond_def)

lemma silent_active_not_debounced:
  assumes "consistent t sd" and "currentStatus sd = StatusActive"
    and "IdleTimeout \<le> Since now (lastOutputAt sd)"
  shows "DebounceInterval \<le> Since now (lastChangeAt sd)"
proof -
  have "lastChangeAt sd \<le> lastOutputAt sd"
    using assms(1,2) by (simp add: consistent_def)
  then have "Since now (lastOutputAt sd) \<le> Since now (lastChangeAt sd)"
    unfolding Since_def by (rule Sub_mono)
  with assms(3) Debounce_le_IdleTimeout show ?thesis by linarith
qed

lemma consistent_step:
  assumes "consistent t sd" and "t \<le> t'"
  shows "consistent t' (fst (step t' ev sd))"
proof -
  have inv: "lastOutputAt sd \<le> t'"
      "currentStatus sd = StatusActive \<longrightarrow> lastChangeAt sd \<le> lastOutputAt sd"
    using assms by (auto simp: consistent_def)
  show ?thesis
  proof (cases ev)
    case (Output data)
    show ?thesis using inv
      by (auto simp: Output consistent_def ProcessOutput_def resetIdleTimer_def setStatus_def
          Let_def split: option.splits)
  next
    case Exit
    show ?thesis using inv status_distinct
      by (auto simp: Exit consistent_def SetExited_def setStatus_def Let_def)
  next
    case StopCall
    show ?thesis using inv
      by (auto simp: StopCall consistent_def Stop_sd_def Let_def split: option.splits)
  next
    case IdleTimerFired
    show ?thesis using inv
      by (auto simp: IdleTimerFired consistent_def idleTimerFired_def setStatus_def Let_def
          StatusIdle_def StatusActive_def)
  qed
qed

lemma step_stays_stopped:
  "StatusDetector.stopped sd \<Longrightarrow> StatusDetector.stopped (fst (step t ev sd))"
  by (cases ev)
    (auto simp: ProcessOutput_def SetExited_def setStatus_def idleTimerFired_def Stop_sd_def
      Let_def split: option.splits)

lemma step_observes_output:
  assumes "\<not> StatusDetector.stopped sd"
  shows "lastOutputAt (fst (step t (Output data) sd)) = t"
    and "idleTimer (fst (step t (Output data) sd)) = Some (Timer (t + IdleTimeout) True)"
  using assms
  by (auto simp: ProcessOutput_def resetIdleTimer_def setStatus_def AfterFunc_def Let_def
      split: option.splits)

lemma step_keeps_output:
  assumes "\<not> StatusDetector.stopped (fst (step t ev sd))" and "\<forall>data. ev \<noteq> Output data"
  shows "lastOutputAt (fst (step t ev sd)) = lastOutputAt sd"
    and "idleTimer (fst (step t ev sd)) = idleTimer sd"
  using assms
  by (cases ev; auto simp: SetExited_def setStatus_def idleTimerFired_def Stop_sd_def
      Let_def split: option.splits)+

lemma tracked_step:
  assumes "tracked t L sd" and "t \<le> t'"
  shows "tracked t' (lastOutputTime L [(t', ev)]) (fst (step t' ev sd))"
proof -
  have c: "consistent t' (fst (step t' ev sd))"
    using assms by (auto simp: tracked_def intro: consistent_step)
  show ?thesis
  proof (cases "StatusDetector.stopped (fst (step t' ev sd))")
    case True
    then show ?thesis using c by (simp add: tracked_def)
  next
    case False
    then have ns: "\<not> StatusDetector.stopped sd"
      using step_stays_stopped by blast
    then have old: "lastOutputAt sd = L" "idleTimer sd = Some (Timer (L + IdleTimeout) True)"
      using assms(1) by (simp_all add: tracked_def)
    show ?thesis
    proof (cases "\<exists>data. ev = Output data")
      case True
      then obtain data where ev: "ev = Output data" by blast
      show ?thesis
        using c step_observes_output [OF ns, of t' data] by (simp add: tracked_def ev)
    next
      case no: False
      then have "lastOutputTime L [(t', ev)] = L" by (cases ev) simp_all
      then show ?thesis
        using c old step_keeps_output [OF False] no by (simp add: tracked_def)
    qed
  qed
qed

lemma lastOutputTime_Cons:
  "lastOutputTime L ((t, ev) # rest) = lastOutputTime (lastOutputTime L [(t, ev)]) rest"
  by (cases ev) simp_all

lemma tracked_runEvents:
  assumes "tracked t L sd" and "clockOrder t evs"
  shows "tracked (lastTime t evs) (lastOutputTime L evs) (runEvents evs sd)"
  using assms
proof (induction evs arbitrary: t L sd)
  case Nil
  then show ?case by simp
next
  case (Cons x evs)
  obtain t' ev where x: "x = (t', ev)" by (cases x)
  have le: "t \<le> t'" and ord: "clockOrder t' evs"
    using Cons.prems(2) x by simp_all
  have "tracked t' (lastOutputTime L [(t', ev)]) (fst (step t' ev sd))"
    using Cons.prems(1) le by (rule tracked_step)
  then have "tracked (lastTime t' evs) (lastOutputTime (lastOutputTime L [(t', ev)]) evs)
               (runEvents evs (fst (step t' ev sd)))"
    using ord by (rule Cons.IH)
  then show ?case
    unfolding x using lastOutputTime_Cons [of L t' ev evs] by simp
qed

lemma tracked_created: "zeroTime \<le> t0 \<Longrightarrow> tracked t0 t0 (NewStatusDetector t0 cb)"
  by (simp add: tracked_def consistent_def NewStatusDetector_def startIdleTimer_def
      AfterFunc_def zeroTime_def)

text \<open>
  Claim C2. Take a detector after any history of events (clock not going back), not
  stopped. Its \<open>lastOutputAt\<close> is the time when output was last observed, that is the
  reading of the last \<open>ProcessOutput\<close> call, or of the creation when there was none, and
  its idle timer is armed for \<open>IdleTimeout\<close> (10 s) after that time. The next step takes
  the status to \<open>idle\<close> from another status if and only if the step is the function of
  the idle timer, the status is \<open>active\<close> and output was last observed at least 10 s
  before. So \<open>idle\<close> is entered from \<open>active\<close> only, never from \<open>needs-input\<close> or
  \<open>exited\<close>, and the debounce of the setter never holds this transition back: an active
  detector has had no change of status since its last output.
\<close>

theorem idle_only_from_silent_active:
  assumes "zeroTime \<le> t0" and "clockOrder t0 evs"
    and "sd = runEvents evs (NewStatusDetector t0 cb)"
    and "\<not> StatusDetector.stopped sd"
  shows "lastOutputAt sd = lastOutputTime t0 evs
       \<and> idleTimer sd = Some (Timer (lastOutputTime t0 evs + IdleTimeout) True)
       \<and> ((currentStatus (fst (step now ev sd)) = StatusIdle \<and> currentStatus sd \<noteq> StatusIdle)
          = (ev = IdleTimerFired \<and> currentStatus sd = StatusActive
             \<and> IdleTimeout \<le> Since now (lastOutputTime t0 evs)))"
proof -
  have tr: "tracked (lastTime t0 evs) (lastOutputTime t0 evs) sd"
    unfolding assms(3) using tracked_created [OF assms(1)] assms(2) by (rule tracked_runEvents)
  then have inv: "consistent (lastTime t0 evs) sd"
    and lo: "lastOutputAt sd = lastOutputTime t0 evs"
    and tm: "idleTimer sd = Some (Timer (lastOutputTime t0 evs + IdleTimeout) True)"
    using assms(4) by (simp_all add: tracked_def)
  have "(currentStatus (fst (step now ev sd)) = StatusIdle \<and> currentStatus sd \<noteq> StatusIdle)
          = (ev = IdleTimerFired \<and> currentStatus sd = StatusActive
             \<and> IdleTimeout \<le> Since now (lastOutputAt sd))"
  proof (cases ev)
    case (Output data)
    have "currentStatus (fst (ProcessOutput now data sd)) = StatusIdle
          \<Longrightarrow> currentStatus sd = StatusIdle"
      using status_distinct
      by (auto simp: ProcessOutput_def resetIdleTimer_def setStatus_def Let_def
          split: option.splits if_splits)
    then show ?thesis using Output by auto
  next
    case Exit
    have "currentStatus (fst (SetExited now sd)) = StatusIdle \<Longrightarrow> currentStatus sd = StatusIdle"
      using status_distinct by (auto simp: SetExited_def setStatus_def Let_def split: if_splits)
    then show ?thesis using Exit by auto
  next
    case StopCall
    have "currentStatus (Stop_sd sd) = currentStatus sd"
      by (simp add: Stop_sd_def Let_def split: option.splits)
    then show ?thesis using StopCall by auto
  next
    case IdleTimerFired
    show ?thesis
    proof (cases "currentStatus sd = StatusActive \<and> IdleTimeout \<le> Since now (lastOutputAt sd)")
      case True
      then have "DebounceInterval \<le> Since now (lastChangeAt sd)"
        using inv silent_active_not_debounced by blast
      then have "currentStatus (fst (idleTimerFired now sd)) = StatusIdle"
        using True assms(4) status_distinct(1)
        by (simp add: idleTimerFired_def setStatus_def Let_def)
      then show ?thesis using True IdleTimerFired status_distinct(1) by auto
    next
      case False
      then have "idleTimerFired now sd = (sd, [])"
        by (auto simp: idleTimerFired_def)
      then show ?thesis using False IdleTimerFired by auto
    qed
  qed
  then show ?thesis using lo tm by simp
qed


theorem idle_only_from_silent_active_witness:
  "zeroTime \<le> unixEpoch
   \<and> clockOrder unixEpoch [(unixEpoch + 5 * Second, Output (''Building...'' @ [NL]))]
   \<and> \<not> StatusDetector.stopped
        (runEvents [(unixEpoch + 5 * Second, Output (''Building...'' @ [NL]))]
           (NewStatusDetector unixEpoch (Some (0::nat))))
   \<and> currentStatus
        (runEvents [(unixEpoch + 5 * Second, Output (''Building...'' @ [NL]))]
           (NewStatusDetector unixEpoch (Some (0::nat)))) = StatusActive
   \<and> lastOutputAt
        (runEvents [(unixEpoch + 5 * Second, Output (''Building...'' @ [NL]))]
           (NewStatusDetector unixEpoch (Some (0::nat)))) = unixEpoch + 5 * Second
   \<and> currentStatus (fst (step (unixEpoch + 14900 * Millisecond) IdleTimerFired
        (runEvents [(unixEpoch + 5 * Second, Output (''Building...'' @ [NL]))]
           (NewStatusDetector unixEpoch (Some (0::nat)))))) \<noteq> StatusIdle
   \<and> currentStatus (fst (step (unixEpoch + 15 * Second) IdleTimerFired
        (runEvents [(unixEpoch + 5 * Second, Output (''Building...'' @ [NL]))]
           (NewStatusDetector unixEpoch (Some (0::nat)))))) = StatusIdle"
proof -
  let ?evs = "[(unixEpoch + 5 * Second, Output (''Building...'' @ [NL]))]"
  let ?sd = "runEvents ?evs (NewStatusDetector unixEpoch (Some (0::nat)))"
  have z: "zeroTime \<le> unixEpoch"
    by (simp add: zeroTime_def unixEpoch_def)
  have ord: "clockOrder unixEpoch ?evs"
    by (simp add: Second_def Millisecond_def)
  have ns: "\<not> StatusDetector.stopped ?sd" by code_simp
  have act: "currentStatus ?sd = StatusActive" by code_simp
  have L: "lastOutputTime unixEpoch ?evs = unixEpoch + 5 * Second" by simp
  note th = idle_only_from_silent_active [OF z ord refl ns]
  have lo: "lastOutputAt ?sd = unixEpoch + 5 * Second"
    using th [of unixEpoch IdleTimerFired] unfolding L by blast
  have early: "\<not> IdleTimeout \<le> Since (unixEpoch + 14900 * Millisecond) (unixEpoch + 5 * Second)"
    by (simp add: Since_def Sub_def IdleTimeout_def Second_def Millisecond_def
        maxDuration_def minDuration_def)
  have late: "IdleTimeout \<le> Since (unixEpoch + 15 * Second) (unixEpoch + 5 * Second)"
    by (simp add: Since_def Sub_def IdleTimeout_def Second_def Millisecond_def
        maxDuration_def minDuration_def)
  have ni: "currentStatus ?sd \<noteq> StatusIdle"
    using act status_distinct(1) by simp
  have a: "currentStatus (fst (step (unixEpoch + 14900 * Millisecond) IdleTimerFired ?sd))
             \<noteq> StatusIdle"
    using th [of "unixEpoch + 14900 * Millisecond" IdleTimerFired] early ni unfolding L by blast
  have b: "currentStatus (fst (step (unixEpoch + 15 * Second) IdleTimerFired ?sd)) = StatusIdle"
    using th [of "unixEpoch + 15 * Second" IdleTimerFired] late act ni unfolding L by blast
  show ?thesis using z ord ns act lo a b by blast
qed

lemma ProcessOutput_stopped:
  "StatusDetector.stopped sd \<Longrightarrow> ProcessOutput now data sd = (sd, [])"
  by (simp add: ProcessOutput_def)

lemma idleTimerFired_stopped:
  "StatusDetector.stopped sd \<Longrightarrow> idleTimerFired now sd = (sd, [])"
  by (simp add: idleTimerFired_def)

lemma Stop_sd_stopped: "StatusDetector.stopped (Stop_sd sd)"
  by (simp add: Stop_sd_def Let_def split: option.splits)

lemma Stop_sd_twice: "Stop_sd (Stop_sd sd) = Stop_sd sd"
  by (simp add: Stop_sd_def Let_def timerStop_def split: option.splits)

text \<open>
  Claim C3 says that after \<open>Stop()\<close> every public call neither changes the status nor
  notifies. \<open>ProcessOutput\<close>, the function of the idle timer and a second \<open>Stop()\<close> are
  such (the four lemmas above), but \<open>SetExited\<close> does not look at the \<open>stopped\<close>
  flag: on a detector stopped right after its creation it sets the status to \<open>exited\<close>
  and notifies the listener of (active, exited).
\<close>

theorem SetExited_after_Stop:
  "StatusDetector.stopped (Stop_sd (NewStatusDetector unixEpoch (Some (0::nat))))
   \<and> SetExited (unixEpoch + Second) (Stop_sd (NewStatusDetector unixEpoch (Some (0::nat))))
       = ((Stop_sd (NewStatusDetector unixEpoch (Some (0::nat))))
            \<lparr>currentStatus := StatusExited, lastChangeAt := unixEpoch + Second\<rparr>,
          [(StatusActive, StatusExited)])"
  by (simp add: SetExited_def setStatus_def Stop_sd_def NewStatusDetector_def startIdleTimer_def
      Let_def Since_def Sub_def zeroTime_def unixEpoch_def Second_def Millisecond_def
      DebounceInterval_def maxDuration_def minDuration_def StatusExited_def StatusActive_def)

text \<open>
  Claim C4 says that \<open>SetExited()\<close> commits \<open>exited\<close> from every status. It goes through
  the debounced setter: on a detector that became idle 100 ms before, the call changes
  nothing and the status stays \<open>idle\<close>.
\<close>

theorem SetExited_debounced_counterexample:
  "currentStatus (fst (idleTimerFired (unixEpoch + IdleTimeout)
       (NewStatusDetector unixEpoch (Some (0::nat))))) = StatusIdle
   \<and> currentStatus (fst (SetExited (unixEpoch + IdleTimeout + 100 * Millisecond)
       (fst (idleTimerFired (unixEpoch + IdleTimeout)
          (NewStatusDetector unixEpoch (Some (0::nat))))))) \<noteq> StatusExited"
  by (simp add: SetExited_def idleTimerFired_def setStatus_def NewStatusDetector_def
      startIdleTimer_def Let_def Since_def Sub_def zeroTime_def unixEpoch_def IdleTimeout_def
      Second_def Millisecond_def DebounceInterval_def maxDuration_def minDuration_def
      StatusExited_def StatusActive_def StatusIdle_def)

text \<open>
  Claim C4, amended. From every status but \<open>exited\<close>, \<open>SetExited()\<close> commits \<open>exited\<close>
  when at least \<open>DebounceInterval\<close> has passed since the last accepted change, and is
  discarded (no change, no notification) when less has passed. Once the status is
  \<open>exited\<close>, the function of the idle timer changes nothing.
\<close>

theorem SetExited_commits_after_debounce:
  "(currentStatus sd \<noteq> StatusExited \<and> DebounceInterval \<le> Since now (lastChangeAt sd)
      \<longrightarrow> currentStatus (fst (SetExited now sd)) = StatusExited)
   \<and> (Since now (lastChangeAt sd) < DebounceInterval \<longrightarrow> SetExited now sd = (sd, []))
   \<and> (currentStatus sd = StatusExited \<longrightarrow> idleTimerFired later sd = (sd, []))"
  using status_distinct(2)
  by (auto simp: SetExited_def idleTimerFired_def setStatus_def Let_def)

theorem SetExited_commits_after_debounce_witness:
  "currentStatus (NewStatusDetector unixEpoch (Some (0::nat))) \<noteq> StatusExited
   \<and> DebounceInterval \<le> Since (unixEpoch + Second)
        (lastChangeAt (NewStatusDetector unixEpoch (Some (0::nat))))
   \<and> currentStatus (fst (SetExited (unixEpoch + Second)
        (NewStatusDetector unixEpoch (Some (0::nat))))) = StatusExited
   \<and> idleTimerFired (unixEpoch + 11 * Second)
        (fst (SetExited (unixEpoch + Second) (NewStatusDetector unixEpoch (Some (0::nat)))))
       = (fst (SetExited (unixEpoch + Second) (NewStatusDetector unixEpoch (Some (0::nat)))), [])"
proof -
  let ?sd = "NewStatusDetector unixEpoch (Some (0::nat))"
  have cur: "currentStatus ?sd \<noteq> StatusExited"
    by (simp add: NewStatusDetector_def startIdleTimer_def StatusActive_def StatusExited_def)
  have lc: "lastChangeAt ?sd = zeroTime"
    by (simp add: NewStatusDetector_def startIdleTimer_def)
  have deb: "DebounceInterval \<le> Since (unixEpoch + Second) (lastChangeAt ?sd)"
    unfolding lc
    by (simp add: Since_def Sub_def zeroTime_def unixEpoch_def Second_def Millisecond_def
        DebounceInterval_def maxDuration_def minDuration_def)
  have ex: "currentStatus (fst (SetExited (unixEpoch + Second) ?sd)) = StatusExited"
    using SetExited_commits_after_debounce [of ?sd "unixEpoch + Second"] cur deb by blast
  have "idleTimerFired (unixEpoch + 11 * Second) (fst (SetExited (unixEpoch + Second) ?sd))
          = (fst (SetExited (unixEpoch + Second) ?sd), [])"
    using SetExited_commits_after_debounce
      [of "fst (SetExited (unixEpoch + Second) ?sd)" _ "unixEpoch + 11 * Second"] ex
    by blast
  then show ?thesis using cur deb ex by blast
qed

lemma Sub_less_Debounce: "(Sub t u < DebounceInterval) = (t - u < DebounceInterval)"
  using Debounce_le_Sub [of t u] by linarith

lemma first_change_general:
  assumes "zeroTime + DebounceInterval \<le> now" and "lastChangeAt sd = zeroTime"
    and "newStatus \<noteq> currentStatus sd"
  shows "fst (setStatus now newStatus sd) = sd\<lparr>currentStatus := newStatus, lastChangeAt := now\<rparr>"
  using assms by (simp add: setStatus_def Let_def Since_def Sub_less_Debounce zeroTime_def)

lemma clock_since_1970: "unixEpoch \<le> now \<Longrightarrow> zeroTime + DebounceInterval \<le> now"
  by (simp add: unixEpoch_def zeroTime_def DebounceInterval_def Millisecond_def)

text \<open>
  Claim C9. A new detector has the zero time as the time of its last accepted change, so
  the first candidate that differs from \<open>active\<close> is committed and notified whenever it
  comes, also at the very clock reading of the creation: whatever \<open>t0\<close> and \<open>now\<close>
  are, as long as the clock reads 500 ms or more past the zero time (year 1), which every
  reading since 1970 does (\<open>clock_since_1970\<close>).
\<close>

theorem first_change_accepted:
  assumes "zeroTime + DebounceInterval \<le> now" and "newStatus \<noteq> StatusActive"
  shows "setStatus now newStatus (NewStatusDetector t0 (Some cb))
       = ((NewStatusDetector t0 (Some cb))\<lparr>currentStatus := newStatus, lastChangeAt := now\<rparr>,
          [(StatusActive, newStatus)])"
  using assms
  by (simp add: setStatus_def Let_def Since_def Sub_less_Debounce zeroTime_def
      NewStatusDetector_def startIdleTimer_def)

theorem first_change_accepted_witness:
  "zeroTime + DebounceInterval \<le> unixEpoch \<and> StatusNeedsInput \<noteq> StatusActive
   \<and> setStatus unixEpoch StatusNeedsInput (NewStatusDetector unixEpoch (Some (0::nat)))
       = ((NewStatusDetector unixEpoch (Some (0::nat)))
            \<lparr>currentStatus := StatusNeedsInput, lastChangeAt := unixEpoch\<rparr>,
          [(StatusActive, StatusNeedsInput)])"
proof -
  have a: "zeroTime + DebounceInterval \<le> unixEpoch"
    by (simp add: unixEpoch_def zeroTime_def DebounceInterval_def Millisecond_def)
  have b: "StatusNeedsInput \<noteq> StatusActive"
    by (simp add: StatusNeedsInput_def StatusActive_def)
  show ?thesis using first_change_accepted [OF a b, of unixEpoch "0::nat"] a b by blast
qed

section \<open>Properties of the transcript recorder\<close>

lemma flush_empty: "buffer tr = [] \<Longrightarrow> flush marshal tr = (tr, [])"
  by (simp add: flush_def)


lemma flush_fields:
  "buffer (fst (flush marshal tr)) = []"
  "stopped (fst (flush marshal tr)) = stopped tr"
  "dupCount (fst (flush marshal tr)) = dupCount tr"
  "lastOutput (fst (flush marshal tr)) = lastOutput tr"
  "flushFn (fst (flush marshal tr)) = flushFn tr"
  "flushTimer (fst (flush marshal tr)) = flushTimer tr"
  by (simp_all add: flush_def Let_def)


lemma Stop_tr_fields:
  "stopped (fst (Stop_tr marshal tr))"
  "buffer (fst (Stop_tr marshal tr)) = []"
  "dupCount (fst (Stop_tr marshal tr)) = dupCount tr"
  by (simp_all add: Stop_tr_def Let_def flush_fields split: option.splits)


lemma Stop_tr_twice:
  "Stop_tr marshal (fst (Stop_tr marshal tr)) = (fst (Stop_tr marshal tr), [])"
proof -
  let ?tr = "fst (Stop_tr marshal tr)"
  have b: "buffer ?tr = []" and s: "stopped ?tr"
    by (rule Stop_tr_fields)+
  have t: "flushTimer ?tr = None \<or> (\<exists>tm. flushTimer ?tr = Some (timerStop tm))"
    by (cases "flushTimer tr") (auto simp: Stop_tr_def Let_def flush_fields)
  have "?tr\<lparr>stopped := True\<rparr> = ?tr" using s by simp
  moreover have "\<And>tm. flushTimer ?tr = Some (timerStop tm)
      \<Longrightarrow> ?tr\<lparr>flushTimer := Some (timerStop (timerStop tm))\<rparr> = ?tr"
    by (simp add: timerStop_def)
  ultimately show ?thesis
    using t b by (auto simp: Stop_tr_def [of marshal ?tr] Let_def flush_empty)
qed




text \<open>
  Claim C8. On a recorder that has not been stopped, \<open>RecordInput\<close> drops a payload
  (no entry, no change) exactly when it is one byte below 32 other than newline and
  carriage return. Every other payload is appended as it is, as an entry of type
  \<open>input\<close>, and its length is added to the byte counter; the buffer is then flushed when
  the counter has reached the threshold.
\<close>

theorem RecordInput_drops_control_bytes:
  assumes "\<not> stopped tr"
  shows "((\<exists>c. data = [c] \<and> (of_char c :: nat) < 32 \<and> c \<noteq> NL \<and> c \<noteq> CR)
           \<longrightarrow> RecordInput marshal now data tr = (tr, []))
       \<and> (\<not> (\<exists>c. data = [c] \<and> (of_char c :: nat) < 32 \<and> c \<noteq> NL \<and> c \<noteq> CR)
           \<longrightarrow> RecordInput marshal now data tr =
                 (let tr1 = tr\<lparr>buffer := buffer tr @
                                  [\<lparr>Timestamp = UnixMilli now, Type = ''input'', Text = data\<rparr>],
                                bufferBytes := bufferBytes tr + length data\<rparr>
                  in if TranscriptFlushThreshold \<le> bufferBytes tr1 then flush marshal tr1
                     else (tr1, [])))"
proof -
  let ?ctl = "\<exists>c. data = [c] \<and> (of_char c :: nat) < 32 \<and> c \<noteq> NL \<and> c \<noteq> CR"
  have eq: "(length data = 1 \<and> (of_char (data ! 0) :: nat) < 32 \<and> data ! 0 \<noteq> NL \<and> data ! 0 \<noteq> CR)
      = ?ctl"
    by (cases data) auto
  show ?thesis
  proof (cases ?ctl)
    case True
    then have "RecordInput marshal now data tr = (tr, [])"
      using assms eq unfolding RecordInput_def Let_def by simp
    then show ?thesis using True by blast
  next
    case False
    then have "\<not> (length data = 1 \<and> (of_char (data ! 0) :: nat) < 32 \<and> data ! 0 \<noteq> NL
                  \<and> data ! 0 \<noteq> CR)"
      using eq by blast
    then have "RecordInput marshal now data tr =
                 (let tr1 = tr\<lparr>buffer := buffer tr @
                                  [\<lparr>Timestamp = UnixMilli now, Type = ''input'', Text = data\<rparr>],
                                bufferBytes := bufferBytes tr + length data\<rparr>
                  in if TranscriptFlushThreshold \<le> bufferBytes tr1 then flush marshal tr1
                     else (tr1, []))"
      using assms unfolding RecordInput_def by (simp only: Let_def if_False)
    then show ?thesis using False by blast
  qed
qed

theorem RecordInput_drops_control_bytes_witness:
  "\<not> stopped (NewTranscriptRecorder unixEpoch (Some (0::nat)))
   \<and> RecordInput (\<lambda>e. Some (Text e)) unixEpoch [ESC] (NewTranscriptRecorder unixEpoch (Some (0::nat)))
       = (NewTranscriptRecorder unixEpoch (Some (0::nat)), [])
   \<and> RecordInput (\<lambda>e. Some (Text e)) unixEpoch (''ls -la'' @ [NL])
        (NewTranscriptRecorder unixEpoch (Some (0::nat)))
       = ((NewTranscriptRecorder unixEpoch (Some (0::nat)))
            \<lparr>buffer := [\<lparr>Timestamp = 0, Type = ''input'', Text = ''ls -la'' @ [NL]\<rparr>],
             bufferBytes := 7\<rparr>, [])"
proof -
  let ?m = "\<lambda>e::TranscriptEntry. Some (Text e)"
  let ?tr = "NewTranscriptRecorder unixEpoch (Some (0::nat))"
  have ns: "\<not> stopped ?tr" and b: "buffer ?tr = []" and n: "bufferBytes ?tr = 0"
    by (simp_all add: NewTranscriptRecorder_def startFlushTimer_def)
  note th = RecordInput_drops_control_bytes [OF ns]
  have esc: "\<exists>c. [ESC] = [c] \<and> (of_char c :: nat) < 32 \<and> c \<noteq> NL \<and> c \<noteq> CR"
    by (simp add: ESC_def NL_def CR_def)
  have a: "RecordInput ?m unixEpoch [ESC] ?tr = (?tr, [])"
    using th [of "[ESC]" ?m unixEpoch] esc by blast
  have ls: "\<not> (\<exists>c. ''ls -la'' @ [NL] = [c] \<and> (of_char c :: nat) < 32 \<and> c \<noteq> NL \<and> c \<noteq> CR)"
    by simp
  have "RecordInput ?m unixEpoch (''ls -la'' @ [NL]) ?tr
      = (let tr1 = ?tr\<lparr>buffer := buffer ?tr @
                        [\<lparr>Timestamp = UnixMilli unixEpoch, Type = ''input'', Text = ''ls -la'' @ [NL]\<rparr>],
                      bufferBytes := bufferBytes ?tr + length (''ls -la'' @ [NL])\<rparr>
         in if TranscriptFlushThreshold \<le> bufferBytes tr1 then flush ?m tr1 else (tr1, []))"
    using th [of "''ls -la'' @ [NL]" ?m unixEpoch] ls by blast
  then have c: "RecordInput ?m unixEpoch (''ls -la'' @ [NL]) ?tr
      = (?tr\<lparr>buffer := [\<lparr>Timestamp = 0, Type = ''input'', Text = ''ls -la'' @ [NL]\<rparr>],
             bufferBytes := 7\<rparr>, [])"
    by (simp add: b n Let_def TranscriptFlushThreshold_def UnixMilli_def)
  show ?thesis using ns a c by blast
qed

lemma Repeat_char: "Repeat [c] n = replicate n c"
  by (induction n) (simp_all add: Repeat_def)

lemma recordOutputs_append:
  "recordOutputs marshal (xs @ ys) tr =
     (let (tr1, out1) = recordOutputs marshal xs tr;
          (tr2, out2) = recordOutputs marshal ys tr1
      in (tr2, out1 @ out2))"
  by (induction xs arbitrary: tr) (auto simp: Let_def split: prod.splits)

lemma RecordOutput_repeat:
  assumes "\<not> stopped tr" and "cleanForTranscript d = f" and "f \<noteq> []"
    and "isAnimationFrame f" and "lastOutput tr = f"
  shows "RecordOutput marshal now d tr = (tr\<lparr>dupCount := dupCount tr + 1\<rparr>, [])"
  using assms by (simp add: RecordOutput_def Let_def)

lemma RecordOutput_new:
  assumes "\<not> stopped tr" and "cleanForTranscript d = c" and "c \<noteq> []" and "c \<noteq> lastOutput tr"
  shows "RecordOutput marshal now d tr =
     (let tr3 = tr\<lparr>dupCount := 0, lastOutput := c,
                  buffer := buffer tr
                    @ (if 0 < dupCount tr
                       then [\<lparr>Timestamp = UnixMilli now, Type = ''output'',
                              Text = ''[repeated '' @ replicate (dupCount tr) (CHR ''.'') @ '']''\<rparr>]
                       else [])
                    @ [\<lparr>Timestamp = UnixMilli now, Type = ''output'', Text = c\<rparr>],
                  bufferBytes := bufferBytes tr + length c\<rparr>
      in if TranscriptFlushThreshold \<le> bufferBytes tr3 then flush marshal tr3 else (tr3, []))"
proof (cases "0 < dupCount tr")
  case True
  then show ?thesis using assms
    by (simp add: RecordOutput_def Let_def Repeat_char)
next
  case False
  then show ?thesis using assms
    by (cases tr) (simp add: RecordOutput_def Let_def)
qed

lemma recordOutputs_repeats:
  assumes "\<not> stopped tr" and "lastOutput tr = f" and "isAnimationFrame f" and "f \<noteq> []"
    and "\<forall>(t, d) \<in> set repeats. cleanForTranscript d = f"
  shows "recordOutputs marshal repeats tr = (tr\<lparr>dupCount := dupCount tr + length repeats\<rparr>, [])"
  using assms
proof (induction repeats arbitrary: tr)
  case Nil
  then show ?case by simp
next
  case (Cons x repeats)
  obtain t d where x: "x = (t, d)" by (cases x)
  have d: "cleanForTranscript d = f" using Cons.prems(5) x by simp
  have one: "RecordOutput marshal t d tr = (tr\<lparr>dupCount := dupCount tr + 1\<rparr>, [])"
    using Cons.prems d by (intro RecordOutput_repeat) simp_all
  have "recordOutputs marshal repeats (tr\<lparr>dupCount := dupCount tr + 1\<rparr>)
      = (tr\<lparr>dupCount := dupCount tr + 1\<rparr>
           \<lparr>dupCount := dupCount (tr\<lparr>dupCount := dupCount tr + 1\<rparr>) + length repeats\<rparr>, [])"
    using Cons.prems by (intro Cons.IH) simp_all
  then show ?case using one x by simp
qed


lemma RecordOutput_new_fields:
  assumes "\<not> stopped tr" and "cleanForTranscript d = c" and "c \<noteq> []" and "c \<noteq> lastOutput tr"
  shows "\<not> stopped (fst (RecordOutput marshal now d tr))"
    and "lastOutput (fst (RecordOutput marshal now d tr)) = c"
    and "dupCount (fst (RecordOutput marshal now d tr)) = 0"
  using assms by (simp_all add: RecordOutput_new Let_def flush_fields)

text \<open>
  Claim C5. A recorder that has not been stopped, and whose last recorded output is not
  the frame \<open>f\<close>, is fed \<open>N = 1 + length repeats\<close> outputs (\<open>N \<ge> 2\<close>) that all clean to
  the animation frame \<open>f\<close>, then one output that cleans to another, non-empty text
  \<open>g\<close>. The first frame is appended as one entry (after the summary of an earlier run,
  if one was pending); the \<open>N - 1\<close> repeats append nothing; the last call appends one
  summary entry, whose text has \<open>N - 1\<close> dots between \<open>[repeated\<close> and \<open>]\<close>, and
  right after it the entry of \<open>g\<close>. After each of the two appends the buffer is flushed
  if the byte counter has reached the threshold.
\<close>

theorem repeated_frames_one_summary:
  assumes "\<not> stopped tr" and "lastOutput tr \<noteq> f" and "isAnimationFrame f" and "f \<noteq> []"
    and "cleanForTranscript d0 = f" and "\<forall>(t, d) \<in> set repeats. cleanForTranscript d = f"
    and "repeats \<noteq> []"
    and "cleanForTranscript d' = g" and "g \<noteq> []" and "g \<noteq> f"
  shows "recordOutputs marshal ((t0, d0) # repeats @ [(t', d')]) tr =
     (let tr0 = tr\<lparr>dupCount := 0, lastOutput := f,
                  buffer := buffer tr
                    @ (if 0 < dupCount tr
                       then [\<lparr>Timestamp = UnixMilli t0, Type = ''output'',
                              Text = ''[repeated '' @ replicate (dupCount tr) (CHR ''.'') @ '']''\<rparr>]
                       else [])
                    @ [\<lparr>Timestamp = UnixMilli t0, Type = ''output'', Text = f\<rparr>],
                  bufferBytes := bufferBytes tr + length f\<rparr>;
          (tr1, out1) = (if TranscriptFlushThreshold \<le> bufferBytes tr0 then flush marshal tr0
                         else (tr0, []));
          tr2 = tr1\<lparr>lastOutput := g,
                  buffer := buffer tr1
                    @ [\<lparr>Timestamp = UnixMilli t', Type = ''output'',
                         Text = ''[repeated '' @ replicate (length repeats) (CHR ''.'') @ '']''\<rparr>,
                       \<lparr>Timestamp = UnixMilli t', Type = ''output'', Text = g\<rparr>],
                  bufferBytes := bufferBytes tr1 + length g\<rparr>;
          (tr3, out3) = (if TranscriptFlushThreshold \<le> bufferBytes tr2 then flush marshal tr2
                         else (tr2, []))
      in (tr3, out1 @ out3))"
proof -
  define tr0 where "tr0 = tr\<lparr>dupCount := 0, lastOutput := f,
                  buffer := buffer tr
                    @ (if 0 < dupCount tr
                       then [\<lparr>Timestamp = UnixMilli t0, Type = ''output'',
                              Text = ''[repeated '' @ replicate (dupCount tr) (CHR ''.'') @ '']''\<rparr>]
                       else [])
                    @ [\<lparr>Timestamp = UnixMilli t0, Type = ''output'', Text = f\<rparr>],
                  bufferBytes := bufferBytes tr + length f\<rparr>"
  define r1 where "r1 = (if TranscriptFlushThreshold \<le> bufferBytes tr0 then flush marshal tr0
                         else (tr0, []))"
  define tr1 where "tr1 = fst r1"
  define k where "k = length repeats"
  define tr2 where "tr2 = tr1\<lparr>lastOutput := g,
                  buffer := buffer tr1
                    @ [\<lparr>Timestamp = UnixMilli t', Type = ''output'',
                         Text = ''[repeated '' @ replicate k (CHR ''.'') @ '']''\<rparr>,
                       \<lparr>Timestamp = UnixMilli t', Type = ''output'', Text = g\<rparr>],
                  bufferBytes := bufferBytes tr1 + length g\<rparr>"
  define r3 where "r3 = (if TranscriptFlushThreshold \<le> bufferBytes tr2 then flush marshal tr2
                         else (tr2, []))"
  have ne: "f \<noteq> lastOutput tr" using assms(2) by blast
  have first: "RecordOutput marshal t0 d0 tr = r1"
    unfolding r1_def tr0_def
    using RecordOutput_new [OF assms(1) assms(5) assms(4) ne, of marshal t0]
    by (simp only: Let_def)
  have p1: "\<not> stopped tr1" "lastOutput tr1 = f" "dupCount tr1 = 0"
    using RecordOutput_new_fields [OF assms(1) assms(5) assms(4) ne, of marshal t0]
    unfolding tr1_def first by simp_all
  have reps: "recordOutputs marshal repeats tr1 = (tr1\<lparr>dupCount := k\<rparr>, [])"
    using recordOutputs_repeats [OF p1(1) p1(2) assms(3) assms(4) assms(6), of marshal] p1(3)
    by (simp add: k_def)
  have kpos: "0 < k" using assms(7) by (simp add: k_def)
  have gne: "g \<noteq> lastOutput (tr1\<lparr>dupCount := k\<rparr>)"
    using assms(10) p1(2) by simp
  have ns: "\<not> stopped (tr1\<lparr>dupCount := k\<rparr>)" using p1(1) by simp
  have st: "(tr1\<lparr>dupCount := k\<rparr>)\<lparr>dupCount := 0, lastOutput := g,
              buffer := buffer (tr1\<lparr>dupCount := k\<rparr>)
                @ (if 0 < dupCount (tr1\<lparr>dupCount := k\<rparr>)
                   then [\<lparr>Timestamp = UnixMilli t', Type = ''output'',
                          Text = ''[repeated '' @ replicate (dupCount (tr1\<lparr>dupCount := k\<rparr>)) (CHR ''.'') @ '']''\<rparr>]
                   else [])
                @ [\<lparr>Timestamp = UnixMilli t', Type = ''output'', Text = g\<rparr>],
              bufferBytes := bufferBytes (tr1\<lparr>dupCount := k\<rparr>) + length g\<rparr> = tr2"
    unfolding tr2_def using kpos p1(3) by (cases tr1) simp
  have last: "RecordOutput marshal t' d' (tr1\<lparr>dupCount := k\<rparr>) = r3"
    unfolding r3_def
    using RecordOutput_new [OF ns assms(8) assms(9) gne, of marshal t']
    by (simp only: Let_def st)
  obtain out1 where r1: "r1 = (tr1, out1)"
    by (cases r1) (simp add: tr1_def)
  obtain tr3 out3 where r3: "r3 = (tr3, out3)"
    by (cases r3)
  have rest: "recordOutputs marshal (repeats @ [(t', d')]) tr1 = (tr3, out3)"
    by (simp add: recordOutputs_append reps last r3)
  have "recordOutputs marshal ((t0, d0) # repeats @ [(t', d')]) tr = (tr3, out1 @ out3)"
    by (simp add: first r1 rest)
  then have "recordOutputs marshal ((t0, d0) # repeats @ [(t', d')]) tr
               = (fst r3, snd r1 @ snd r3)"
    by (simp add: r1 r3)
  then show ?thesis
    unfolding r3_def tr2_def k_def tr1_def r1_def tr0_def
    by (simp only: Let_def split_def)
qed


theorem repeated_frames_one_summary_witness:
  "\<not> stopped (NewTranscriptRecorder unixEpoch (Some (0::nat)))
   \<and> isAnimationFrame ''|'' \<and> cleanForTranscript ''|'' = ''|''
   \<and> cleanForTranscript ''done'' = ''done''
   \<and> recordOutputs (\<lambda>e. Some (Text e))
        [(unixEpoch, ''|''), (unixEpoch, ''|''), (unixEpoch, ''|''), (unixEpoch, ''done'')]
        (NewTranscriptRecorder unixEpoch (Some (0::nat)))
       = ((NewTranscriptRecorder unixEpoch (Some (0::nat)))
            \<lparr>lastOutput := ''done'',
             buffer := [\<lparr>Timestamp = 0, Type = ''output'', Text = ''|''\<rparr>,
                        \<lparr>Timestamp = 0, Type = ''output'', Text = ''[repeated ..]''\<rparr>,
                        \<lparr>Timestamp = 0, Type = ''output'', Text = ''done''\<rparr>],
             bufferBytes := 5\<rparr>, [])"
proof -
  let ?m = "\<lambda>e::TranscriptEntry. Some (Text e)"
  let ?tr = "NewTranscriptRecorder unixEpoch (Some (0::nat))"
  have ns: "\<not> stopped ?tr" and lo: "lastOutput ?tr \<noteq> ''|''"
    by (simp_all add: NewTranscriptRecorder_def startFlushTimer_def)
  have fr: "isAnimationFrame ''|''" by code_simp
  have c1: "cleanForTranscript ''|'' = ''|''" by code_simp
  have c2: "cleanForTranscript ''done'' = ''done''" by code_simp
  have reps: "\<forall>(t, d) \<in> set [(unixEpoch, ''|''), (unixEpoch, ''|'')]. cleanForTranscript d = ''|''"
    using c1 by simp
  have f_ne: "''|'' \<noteq> []" and r_ne: "[(unixEpoch, ''|''), (unixEpoch, ''|'')] \<noteq> []"
    and g_ne: "''done'' \<noteq> []" and gf: "''done'' \<noteq> ''|''"
    by simp_all
  note th = repeated_frames_one_summary
    [OF ns lo fr f_ne c1 reps r_ne c2 g_ne gf, of ?m unixEpoch unixEpoch]
  have "recordOutputs ?m
          ((unixEpoch, ''|'') # [(unixEpoch, ''|''), (unixEpoch, ''|'')] @ [(unixEpoch, ''done'')]) ?tr
      = (?tr\<lparr>lastOutput := ''done'',
             buffer := [\<lparr>Timestamp = 0, Type = ''output'', Text = ''|''\<rparr>,
                        \<lparr>Timestamp = 0, Type = ''output'', Text = ''[repeated ..]''\<rparr>,
                        \<lparr>Timestamp = 0, Type = ''output'', Text = ''done''\<rparr>],
             bufferBytes := 5\<rparr>, [])"
    by (subst th)
      (simp add: NewTranscriptRecorder_def startFlushTimer_def Let_def
        TranscriptFlushThreshold_def UnixMilli_def)
  then show ?thesis using ns fr c1 c2 by simp
qed

lemma flush_dupCount:
  "flush marshal (tr\<lparr>dupCount := n\<rparr>)
     = ((fst (flush marshal tr))\<lparr>dupCount := n\<rparr>, snd (flush marshal tr))"
  by (cases tr) (simp add: flush_def Let_def)

lemma Stop_tr_dupCount:
  "Stop_tr marshal (tr\<lparr>dupCount := n\<rparr>)
     = ((fst (Stop_tr marshal tr))\<lparr>dupCount := n\<rparr>, snd (Stop_tr marshal tr))"
  by (cases tr) (simp add: Stop_tr_def flush_def Let_def split: option.splits)

lemma RecordOutput_stopped: "stopped tr \<Longrightarrow> RecordOutput marshal now data tr = (tr, [])"
  by (simp add: RecordOutput_def)

lemma RecordInput_stopped: "stopped tr \<Longrightarrow> RecordInput marshal now data tr = (tr, [])"
  by (simp add: RecordInput_def)

lemma flushTimerFired_stopped: "stopped tr \<Longrightarrow> flushTimerFired marshal now tr = (tr, [])"
  by (simp add: flushTimerFired_def)

text \<open>
  Claim C10. Repeats of the last recorded frame only count: they append no entry and hand
  nothing to \<open>flushFn\<close>. What a flush hands over is the lines of the buffered entries and
  nothing else; \<open>flush\<close> and \<open>Stop()\<close> neither read nor change the repeat counter. After
  \<open>Stop()\<close> no call changes the recorder or hands anything over. So a count that is pending
  when the recorder stops is in no batch.
\<close>

theorem pending_repeats_never_flushed:
  assumes "\<not> stopped tr" and "lastOutput tr = f" and "isAnimationFrame f" and "f \<noteq> []"
    and "\<forall>(t, d) \<in> set repeats. cleanForTranscript d = f"
  shows "recordOutputs marshal repeats tr = (tr\<lparr>dupCount := dupCount tr + length repeats\<rparr>, [])
       \<and> snd (flush marshal r) =
           (if buffer r \<noteq> [] \<and> jsonLines marshal (buffer r) \<noteq> [] \<and> flushFn r \<noteq> None
            then [jsonLines marshal (buffer r)] else [])
       \<and> flush marshal (r\<lparr>dupCount := n\<rparr>)
           = ((fst (flush marshal r))\<lparr>dupCount := n\<rparr>, snd (flush marshal r))
       \<and> Stop_tr marshal (r\<lparr>dupCount := n\<rparr>)
           = ((fst (Stop_tr marshal r))\<lparr>dupCount := n\<rparr>, snd (Stop_tr marshal r))
       \<and> RecordOutput marshal now data (fst (Stop_tr marshal r)) = (fst (Stop_tr marshal r), [])
       \<and> RecordInput marshal now data (fst (Stop_tr marshal r)) = (fst (Stop_tr marshal r), [])
       \<and> flushTimerFired marshal now (fst (Stop_tr marshal r)) = (fst (Stop_tr marshal r), [])
       \<and> Stop_tr marshal (fst (Stop_tr marshal r)) = (fst (Stop_tr marshal r), [])"
proof -
  have "snd (flush marshal r) =
           (if buffer r \<noteq> [] \<and> jsonLines marshal (buffer r) \<noteq> [] \<and> flushFn r \<noteq> None
            then [jsonLines marshal (buffer r)] else [])"
    by (simp add: flush_def Let_def)
  then show ?thesis
    using recordOutputs_repeats [OF assms, of marshal] flush_dupCount [where marshal = marshal and tr = r and n = n]
      Stop_tr_dupCount [where marshal = marshal and tr = r and n = n] Stop_tr_fields(1) [of marshal r]
      RecordOutput_stopped [of "fst (Stop_tr marshal r)" marshal now data]
      RecordInput_stopped [of "fst (Stop_tr marshal r)" marshal now data]
      flushTimerFired_stopped [of "fst (Stop_tr marshal r)" marshal now]
      Stop_tr_twice [of marshal r]
    by blast
qed

theorem pending_repeats_never_flushed_witness:
  "isAnimationFrame ''|'' \<and> cleanForTranscript ''|'' = ''|''
   \<and> recordOutputs (\<lambda>e. Some (Text e)) [(unixEpoch, ''|''), (unixEpoch, ''|'')]
        \<lparr>buffer = [\<lparr>Timestamp = 0, Type = ''output'', Text = ''|''\<rparr>], bufferBytes = 1,
         flushFn = Some (0::nat), flushTimer = None, stopped = False,
         lastOutput = ''|'', dupCount = 0\<rparr>
       = (\<lparr>buffer = [\<lparr>Timestamp = 0, Type = ''output'', Text = ''|''\<rparr>], bufferBytes = 1,
           flushFn = Some (0::nat), flushTimer = None, stopped = False,
           lastOutput = ''|'', dupCount = 2\<rparr>, [])
   \<and> Stop_tr (\<lambda>e. Some (Text e))
        \<lparr>buffer = [\<lparr>Timestamp = 0, Type = ''output'', Text = ''|''\<rparr>], bufferBytes = 1,
         flushFn = Some (0::nat), flushTimer = None, stopped = False,
         lastOutput = ''|'', dupCount = 2\<rparr>
       = (\<lparr>buffer = [], bufferBytes = 0,
           flushFn = Some (0::nat), flushTimer = None, stopped = True,
           lastOutput = ''|'', dupCount = 2\<rparr>, [''|'' @ [NL]])"
proof -
  let ?m = "\<lambda>e::TranscriptEntry. Some (Text e)"
  let ?tr = "\<lparr>buffer = [\<lparr>Timestamp = 0, Type = ''output'', Text = ''|''\<rparr>], bufferBytes = 1,
         flushFn = Some (0::nat), flushTimer = None, stopped = False,
         lastOutput = ''|'', dupCount = 0\<rparr>"
  have fr: "isAnimationFrame ''|''" by code_simp
  have c1: "cleanForTranscript ''|'' = ''|''" by code_simp
  have reps: "\<forall>(t, d) \<in> set [(unixEpoch, ''|''), (unixEpoch, ''|'')]. cleanForTranscript d = ''|''"
    using c1 by simp
  note th = pending_repeats_never_flushed
    [where tr = ?tr and f = "''|''" and repeats = "[(unixEpoch, ''|''), (unixEpoch, ''|'')]"
       and marshal = ?m and r = ?tr and n = 2]
  have a: "recordOutputs ?m [(unixEpoch, ''|''), (unixEpoch, ''|'')] ?tr = (?tr\<lparr>dupCount := 2\<rparr>, [])"
    using th fr reps by simp
  have s0: "Stop_tr ?m ?tr = (?tr\<lparr>stopped := True, buffer := [], bufferBytes := 0\<rparr>, [''|'' @ [NL]])"
    by (simp add: Stop_tr_def flush_def jsonLines_def Let_def)
  have b: "Stop_tr ?m (?tr\<lparr>dupCount := 2\<rparr>)
         = ((fst (Stop_tr ?m ?tr))\<lparr>dupCount := 2\<rparr>, snd (Stop_tr ?m ?tr))"
    using th fr reps by simp
  show ?thesis using fr c1 a b unfolding s0 by simp
qed





lemma collapse_notNL: "c \<noteq> NL \<Longrightarrow> collapseNewlineRuns (c # cs) = c # collapseNewlineRuns cs"
  by simp


lemma ReplaceAll_notNL:
  "c \<noteq> NL \<Longrightarrow> ReplaceAll (c # cs) [NL, NL, NL] [NL, NL] = c # ReplaceAll cs [NL, NL, NL] [NL, NL]"
  by (simp add: HasPrefix_def)






lemma Contains_append: "Contains t sub \<Longrightarrow> Contains (p @ t) sub"
  by (induction p) simp_all




lemma ReplaceAll_CR: "ReplaceAll s [CR] [] = filter (\<lambda>c. c \<noteq> CR) s"
  by (induction s) (auto simp: HasPrefix_def)

lemma madeOf_append: "madeOf ws x \<Longrightarrow> madeOf ws y \<Longrightarrow> madeOf ws (x @ y)"
  by (induction rule: madeOf.induct) (auto intro: madeOf.intros)

lemma madeOf_rev: "madeOf (map rev ws) x \<Longrightarrow> madeOf ws (rev x)"
proof (induction rule: madeOf.induct)
  case none
  then show ?case by (simp add: madeOf.none)
next
  case (more w s)
  then obtain v where "v \<in> set ws" and "w = rev v" by auto
  then have "madeOf ws (rev w)"
    using madeOf.more [of v ws "[]"] madeOf.none by simp
  then show ?case using more.IH by (simp add: madeOf_append)
qed

lemma trimPrefixes_spec:
  "\<exists>a. s = a @ trimPrefixes ws s \<and> madeOf ws a
       \<and> (\<forall>w \<in> set ws. w \<noteq> [] \<longrightarrow> \<not> HasPrefix (trimPrefixes ws s) w)"
proof (induction ws s rule: trimPrefixes.induct)
  case (1 ws s)
  show ?case
  proof (cases "find (\<lambda>w. w \<noteq> [] \<and> HasPrefix s w) ws")
    case None
    then have "trimPrefixes ws s = s"
      by (subst trimPrefixes.simps) simp
    moreover have "\<forall>w \<in> set ws. w \<noteq> [] \<longrightarrow> \<not> HasPrefix s w"
      using None by (auto simp: find_None_iff)
    ultimately show ?thesis
      using madeOf.none [of ws] by auto
  next
    case (Some w)
    then have w: "w \<in> set ws" "HasPrefix s w"
      by (auto simp: find_Some_iff)
    have eq: "trimPrefixes ws s = trimPrefixes ws (drop (length w) s)"
      using Some by (subst trimPrefixes.simps) simp
    obtain a where a: "drop (length w) s = a @ trimPrefixes ws (drop (length w) s)"
        "madeOf ws a"
        "\<forall>v \<in> set ws. v \<noteq> [] \<longrightarrow> \<not> HasPrefix (trimPrefixes ws (drop (length w) s)) v"
      using 1 [OF Some] by blast
    have "s = w @ drop (length w) s"
      using w(2) by (metis HasPrefix_def append_take_drop_id)
    then have "s = (w @ a) @ trimPrefixes ws s"
      using a(1) eq by simp
    moreover have "madeOf ws (w @ a)"
      using w(1) a(2) by (rule madeOf.more)
    ultimately show ?thesis using a(3) eq by metis
  qed
qed

lemma HasSuffix_rev: "HasSuffix s p = HasPrefix (rev s) (rev p)"
proof
  assume "HasSuffix s p"
  then have "s = take (length s - length p) s @ p"
    by (metis HasSuffix_def append_take_drop_id)
  then have "rev s = rev p @ rev (take (length s - length p) s)"
    by (metis rev_append)
  then show "HasPrefix (rev s) (rev p)"
    by (metis HasPrefix_def append_eq_conv_conj length_rev)
next
  assume "HasPrefix (rev s) (rev p)"
  then have "rev s = rev p @ drop (length p) (rev s)"
    by (metis HasPrefix_def append_take_drop_id length_rev)
  then have "s = rev (drop (length p) (rev s)) @ p"
    by (metis rev_append rev_rev_ident)
  then show "HasSuffix s p"
    unfolding HasSuffix_def
    by (metis add_diff_cancel_right' append_eq_conv_conj le_add2 length_append)
qed

lemma unicodeSpaces_nonempty: "w \<in> set unicodeSpaces \<Longrightarrow> w \<noteq> []"
  by (auto simp: unicodeSpaces_def)

text \<open>
  \<open>TrimSpace\<close> takes white space away at both ends and nothing else, and what it returns
  neither begins nor ends with a white space rune.
\<close>

lemma TrimSpace_spec:
  "\<exists>a b. s = a @ TrimSpace s @ b \<and> madeOf unicodeSpaces a \<and> madeOf unicodeSpaces b
         \<and> (\<forall>w \<in> set unicodeSpaces.
               \<not> HasPrefix (TrimSpace s) w \<and> \<not> HasSuffix (TrimSpace s) w)"
proof -
  define m where "m = trimPrefixes unicodeSpaces s"
  define r where "r = trimPrefixes (map rev unicodeSpaces) (rev m)"
  obtain a where a: "s = a @ m" "madeOf unicodeSpaces a"
      "\<forall>w \<in> set unicodeSpaces. w \<noteq> [] \<longrightarrow> \<not> HasPrefix m w"
    unfolding m_def using trimPrefixes_spec [of s unicodeSpaces] by blast
  obtain b where b: "rev m = b @ r" "madeOf (map rev unicodeSpaces) b"
      "\<forall>w \<in> set (map rev unicodeSpaces). w \<noteq> [] \<longrightarrow> \<not> HasPrefix r w"
    unfolding r_def using trimPrefixes_spec [of "rev m" "map rev unicodeSpaces"] by blast
  have t: "TrimSpace s = rev r" by (simp add: TrimSpace_def r_def m_def)
  have m: "m = rev r @ rev b"
    using b(1) by (metis rev_append rev_rev_ident)
  have 1: "s = a @ TrimSpace s @ rev b" using a(1) m t by simp
  have 2: "madeOf unicodeSpaces (rev b)" using b(2) by (rule madeOf_rev)
  have 3: "\<not> HasSuffix (TrimSpace s) w" if "w \<in> set unicodeSpaces" for w
  proof -
    have "rev w \<in> set (map rev unicodeSpaces)" and "rev w \<noteq> []"
      using that unicodeSpaces_nonempty by auto
    then have "\<not> HasPrefix r (rev w)" using b(3) by blast
    then show ?thesis by (simp add: HasSuffix_rev t)
  qed
  have 4: "\<not> HasPrefix (TrimSpace s) w" if "w \<in> set unicodeSpaces" for w
  proof
    assume p: "HasPrefix (TrimSpace s) w"
    then have "HasPrefix (rev r) w" by (simp add: t)
    then have "HasPrefix m w"
      unfolding m using HasPrefix_length [of "rev r" w] by (simp add: HasPrefix_def)
    moreover have "w \<noteq> []" using that by (rule unicodeSpaces_nonempty)
    ultimately show False using a(3) that by blast
  qed
  show ?thesis using 1 a(2) 2 3 4 by blast
qed

lemma collapseBlankLines_done: "\<not> Contains (collapseBlankLines s) [NL, NL, NL]"
proof (induction s rule: collapseBlankLines.induct)
  case (1 s)
  then show ?case by (subst collapseBlankLines.simps) simp
qed

lemma set_ReplaceAll_collapse: "set (ReplaceAll s [NL, NL, NL] [NL, NL]) \<subseteq> set s"
  by (induction s "[NL, NL, NL]" "[NL, NL]" rule: ReplaceAll.induct)
    (auto simp: HasPrefix_def dest: in_set_dropD)

lemma set_collapseBlankLines: "set (collapseBlankLines s) \<subseteq> set s"
proof (induction s rule: collapseBlankLines.induct)
  case (1 s)
  show ?case
  proof (cases "Contains s [NL, NL, NL]")
    case True
    then have "collapseBlankLines s = collapseBlankLines (ReplaceAll s [NL, NL, NL] [NL, NL])"
      by (subst collapseBlankLines.simps) simp
    then show ?thesis using 1 [OF True] set_ReplaceAll_collapse [of s] by auto
  next
    case False
    then show ?thesis by (subst collapseBlankLines.simps) simp
  qed
qed

lemma HasPrefix_append: "HasPrefix s p \<Longrightarrow> HasPrefix (s @ y) p"
  using HasPrefix_length [of s p] by (simp add: HasPrefix_def)

lemma Contains_prefix: "Contains x sub \<Longrightarrow> Contains (x @ y) sub"
proof (induction x)
  case Nil
  then show ?case by (cases y) (simp_all add: HasPrefix_def)
next
  case (Cons c x)
  then show ?case using HasPrefix_append [of "c # x" sub y] by auto
qed

text \<open>
  What is returned has no carriage return, no three newlines in a row and no white space
  at either end.
\<close>

lemma cleanForTranscript_result:
  "CR \<notin> set (cleanForTranscript text)"
  "\<not> Contains (cleanForTranscript text) [NL, NL, NL]"
  "w \<in> set unicodeSpaces \<Longrightarrow> \<not> HasPrefix (cleanForTranscript text) w"
  "w \<in> set unicodeSpaces \<Longrightarrow> \<not> HasSuffix (cleanForTranscript text) w"
proof -
  define s where "s = collapseBlankLines (ReplaceAll (stripTranscriptAnsi text) [CR] [])"
  have c: "cleanForTranscript text = TrimSpace s"
    by (simp add: cleanForTranscript_def Let_def s_def)
  obtain a b where ab: "s = a @ TrimSpace s @ b"
      and ends: "\<forall>w \<in> set unicodeSpaces. \<not> HasPrefix (TrimSpace s) w \<and> \<not> HasSuffix (TrimSpace s) w"
    using TrimSpace_spec [of s] by blast
  have "set s \<subseteq> set (ReplaceAll (stripTranscriptAnsi text) [CR] [])"
    unfolding s_def by (rule set_collapseBlankLines)
  then have "CR \<notin> set s" by (auto simp: ReplaceAll_CR)
  moreover have "set (TrimSpace s) \<subseteq> set s"
    using ab by (metis Un_upper1 Un_upper2 set_append subset_trans)
  ultimately show "CR \<notin> set (cleanForTranscript text)" using c by auto
  have "\<not> Contains s [NL, NL, NL]"
    unfolding s_def by (rule collapseBlankLines_done)
  then show "\<not> Contains (cleanForTranscript text) [NL, NL, NL]"
    using ab c Contains_prefix Contains_append by metis
  show "w \<in> set unicodeSpaces \<Longrightarrow> \<not> HasPrefix (cleanForTranscript text) w"
    using ends c by simp
  show "w \<in> set unicodeSpaces \<Longrightarrow> \<not> HasSuffix (cleanForTranscript text) w"
    using ends c by simp
qed














section \<open>The tests of the repository\<close>

text \<open>
  The cases of the repository's own tests, evaluated on the definitions above: the three
  tables, and the statuses that \<open>TestStatusDetectorTransitions\<close> expects (its waits are
  the differences of the clock readings).
\<close>

lemma TestMatchesPrompt:
  "matchesPrompt [CHR 0xE2, CHR 0x9D, CHR 0xAF, CHR 0x20]"
  "matchesPrompt [CHR 0xE2, CHR 0x9D, CHR 0xAF, CHR 0x20, CHR 0x20]"
  "matchesPrompt ''> ''"
  "matchesPrompt ''$ ''"
  "matchesPrompt ''? (yes/no) ''"
  "matchesPrompt ''(Y)es / (N)o''"
  "\<not> matchesPrompt ''Building project...''"
  "\<not> matchesPrompt ''const foo = 42;''"
  "\<not> matchesPrompt ''''"
  "matchesPrompt ''Press Enter to continue''"
  "matchesPrompt ''[Y/n]''"
  by code_simp+

lemma TestStripAnsi:
  "stripAnsi ''hello world'' = ''hello world''"
  "stripAnsi ([ESC] @ ''[32mgreen'' @ [ESC] @ ''[0m'') = ''green''"
  "stripAnsi ([ESC] @ ''[1;1Hhello'') = ''hello''"
  "stripAnsi ([ESC] @ '']0;My Title'' @ [BEL] @ ''rest'') = ''rest''"
  by code_simp+

lemma TestGetLastLines:
  "getLastLines ''hello'' 3 = ''hello''"
  "getLastLines (''a'' @ [NL] @ ''b'' @ [NL] @ ''c'') 3 = ''a'' @ [NL] @ ''b'' @ [NL] @ ''c''"
  "getLastLines (''a'' @ [NL] @ ''b'' @ [NL] @ ''c'' @ [NL] @ ''d'' @ [NL] @ ''e'') 3
     = ''c'' @ [NL] @ ''d'' @ [NL] @ ''e''"
  by code_simp+

lemma TestStatusDetectorTransitions:
  "GetStatus (NewStatusDetector unixEpoch (Some (0::nat))) = StatusActive"
  "GetStatus (fst (ProcessOutput (unixEpoch + Millisecond) (''Building project...'' @ [NL])
     (NewStatusDetector unixEpoch (Some (0::nat))))) = StatusActive"
  "GetStatus (fst (ProcessOutput (unixEpoch + 561 * Millisecond) [NL, CHR 0xE2, CHR 0x9D, CHR 0xAF, CHR 0x20]
     (fst (ProcessOutput (unixEpoch + Millisecond) (''Building project...'' @ [NL])
       (NewStatusDetector unixEpoch (Some (0::nat))))))) = StatusNeedsInput"
  "GetStatus (fst (ProcessOutput (unixEpoch + 1161 * Millisecond)
       (''Analyzing code...'' @ [NL] @ ''Running tests...'' @ [NL])
     (fst (ProcessOutput (unixEpoch + 561 * Millisecond) [NL, CHR 0xE2, CHR 0x9D, CHR 0xAF, CHR 0x20]
       (fst (ProcessOutput (unixEpoch + Millisecond) (''Building project...'' @ [NL])
         (NewStatusDetector unixEpoch (Some (0::nat))))))))) = StatusActive"
  "GetStatus (fst (SetExited (unixEpoch + 1761 * Millisecond)
     (fst (ProcessOutput (unixEpoch + 1161 * Millisecond)
         (''Analyzing code...'' @ [NL] @ ''Running tests...'' @ [NL])
       (fst (ProcessOutput (unixEpoch + 561 * Millisecond) [NL, CHR 0xE2, CHR 0x9D, CHR 0xAF, CHR 0x20]
         (fst (ProcessOutput (unixEpoch + Millisecond) (''Building project...'' @ [NL])
           (NewStatusDetector unixEpoch (Some (0::nat))))))))))) = StatusExited"
  by code_simp+

end
